theory Spec2Isabelle
  imports Complex_Main "HOL-Library.Sublist" "HOL-Library.AList"
begin

section \<open>Configuration\<close>

text \<open>The constants at the top of \<^verbatim>\<open>query-sso-admin-access.ts\<close> (lines 40, 41).\<close>

definition MAX_RETRIES :: int where
  "MAX_RETRIES = 5"

definition INITIAL_RETRY_DELAY :: real where
  "INITIAL_RETRY_DELAY = 1000"

section \<open>Data\<close>

text \<open>
  A thrown value, as far as the program inspects it: \<^verbatim>\<open>error.name\<close>, the message and
  \<^verbatim>\<open>error.$metadata?.httpStatusCode\<close>.
\<close>

datatype error = Error (errorName: string) (errorMessage: string) (httpStatusCode: "nat option")

datatype assignmentKind = USER | GROUP

text \<open>The interface \<^verbatim>\<open>AdminAssignment\<close> (lines 48-55); \<^verbatim>\<open>groupName\<close> is optional.\<close>

record AdminAssignment =
  accountNumber :: string
  accountName :: string
  username :: string
  permissionSetName :: string
  assignmentType :: assignmentKind
  groupName :: "string option"

text \<open>
  The fields of the service's responses that the program reads. Every field is optional
  in the SDK's types, so each is an \<open>option\<close>.
\<close>

record DescribeUserResponse =
  UserName :: "string option"

record DescribeGroupResponse =
  DisplayName :: "string option"

text \<open>
  Of a membership the program reads \<^verbatim>\<open>MemberId?.UserId\<close> only: \<open>None\<close> when the member
  id or its user id is missing.
\<close>

record GroupMembership =
  MemberId_UserId :: "string option"

record ListGroupMembershipsResponse =
  GroupMemberships :: "GroupMembership list option"
  MembershipsNextToken :: "string option"

record AccountAssignment =
  PrincipalId :: "string option"
  PrincipalType :: "string option"

record ListAccountAssignmentsResponse =
  AccountAssignments :: "AccountAssignment list option"
  AssignmentsNextToken :: "string option"

text \<open>
  JavaScript truthiness of an optional string: \<^verbatim>\<open>undefined\<close> and the empty string are
  falsy. \<open>orElse\<close> is \<^verbatim>\<open>a || b\<close> on such a value.
\<close>

definition truthy :: "string option \<Rightarrow> bool" where
  "truthy v = (case v of None \<Rightarrow> False | Some s \<Rightarrow> s \<noteq> [])"

definition orElse :: "string option \<Rightarrow> string \<Rightarrow> string" where
  "orElse v d = (case v of None \<Rightarrow> d | Some s \<Rightarrow> if s = [] then d else s)"

section \<open>Effects\<close>

text \<open>
  Every remote call goes through \<^verbatim>\<open>client.send(new XCommand({...}))\<close>. A \<open>call\<close> is the
  command sent together with what came back; the trace of a run lists the calls, the
  sleeps of the backoff, the warnings given to \<^verbatim>\<open>globalLogger\<close> and the lines written
  with \<^verbatim>\<open>console.error\<close>, in the order they happened.
\<close>

datatype call =
    DescribeUserCommand string string "error + DescribeUserResponse"
  | DescribeGroupCommand string string "error + DescribeGroupResponse"
  | ListGroupMembershipsCommand string string "string option" "error + ListGroupMembershipsResponse"
  | ListAccountAssignmentsCommand string string string "string option"
      "error + ListAccountAssignmentsResponse"

datatype event =
    Sent call
  | Sleep real
  | Warning string
  | ConsoleError string error

text \<open>
  The state a run threads through: the remote service (of any type \<open>'r\<close>), the three
  module-level caches (lines 58-60), whether \<^verbatim>\<open>globalLogger\<close> has been set (line 63), the
  values \<^verbatim>\<open>Math.random()\<close> returns (the \<open>n\<close>-th draw is \<open>random w n\<close>, a number in
  \<open>[0, 1)\<close>) with the count of draws so far, and the trace. A function of the program
  becomes a function from the world at its call to its result and the world at its
  return, with no other task running in between.
\<close>

record 'r world =
  remote :: 'r
  userCache :: "string \<rightharpoonup> string"
  groupCache :: "string \<rightharpoonup> string"
  groupMembersCache :: "string \<rightharpoonup> string list"
  globalLogger :: bool
  random :: "nat \<Rightarrow> real"
  drawn :: nat
  trace :: "event list"

text \<open>
  The two SDK clients the functions take. Each operation maps the command's fields and
  the state of the service to a response or a thrown error, and the next state.
\<close>

record 'r IdentitystoreClient =
  describeUser :: "string \<Rightarrow> string \<Rightarrow> 'r \<Rightarrow> (error + DescribeUserResponse) \<times> 'r"
  describeGroup :: "string \<Rightarrow> string \<Rightarrow> 'r \<Rightarrow> (error + DescribeGroupResponse) \<times> 'r"
  listGroupMemberships ::
    "string \<Rightarrow> string \<Rightarrow> string option \<Rightarrow> 'r \<Rightarrow> (error + ListGroupMembershipsResponse) \<times> 'r"

record 'r SSOAdminClient =
  listAccountAssignments ::
    "string \<Rightarrow> string \<Rightarrow> string \<Rightarrow> string option \<Rightarrow> 'r
      \<Rightarrow> (error + ListAccountAssignmentsResponse) \<times> 'r"

definition send ::
  "('r \<Rightarrow> (error + 'a) \<times> 'r) \<Rightarrow> ((error + 'a) \<Rightarrow> call) \<Rightarrow> 'r world \<Rightarrow> (error + 'a) \<times> 'r world"
where
  "send handler command w =
     (case handler (remote w) of
        (outcome, r) \<Rightarrow> (outcome, w\<lparr>remote := r, trace := trace w @ [Sent (command outcome)]\<rparr>))"

definition Math_random :: "'r world \<Rightarrow> real \<times> 'r world" where
  "Math_random w = (random w (drawn w), w\<lparr>drawn := Suc (drawn w)\<rparr>)"

definition sleep :: "real \<Rightarrow> 'r world \<Rightarrow> 'r world" where
  "sleep delay w = w\<lparr>trace := trace w @ [Sleep delay]\<rparr>"

definition logWarning :: "string \<Rightarrow> 'r world \<Rightarrow> 'r world" where
  "logWarning msg w = (if globalLogger w then w\<lparr>trace := trace w @ [Warning msg]\<rparr> else w)"

definition consoleError :: "string \<Rightarrow> error \<Rightarrow> 'r world \<Rightarrow> 'r world" where
  "consoleError msg e w = w\<lparr>trace := trace w @ [ConsoleError msg e]\<rparr>"

section \<open>Numbers in template strings\<close>

fun showNat :: "nat \<Rightarrow> string" where
  "showNat n =
     (if n < 10 then [''0123456789'' ! n]
      else showNat (n div 10) @ [''0123456789'' ! (n mod 10)])"

definition showInt :: "int \<Rightarrow> string" where
  "showInt i = (if i < 0 then CHR ''-'' # showNat (nat (- i)) else showNat (nat i))"

section \<open>retryWithBackoff (lines 66-104)\<close>

definition isRateLimitError :: "error \<Rightarrow> bool" where
  "isRateLimitError e \<longleftrightarrow>
     errorName e = ''TooManyRequestsException'' \<or>
     errorName e = ''ThrottlingException'' \<or>
     httpStatusCode e = Some 429"

definition retryMessage :: "string \<Rightarrow> real \<Rightarrow> int \<Rightarrow> int \<Rightarrow> string" where
  "retryMessage operationName delay attempt retries =
     ''Rate limit: '' @ operationName @ ''. Retry in '' @ showInt (round (delay / 1000)) @
     ''s ('' @ showInt (attempt + 1) @ ''/'' @ showInt retries @ '')''"

text \<open>
  The \<^verbatim>\<open>for\<close> loop of lines 71-101, with the loop variable \<open>attempt\<close> as an argument,
  and the \<^verbatim>\<open>throw\<close> of line 103 behind it. Delays are real numbers: the rounding of
  the floating-point sum of line 89 is left out.
\<close>

function retryLoop ::
  "('r world \<Rightarrow> (error + 'a) \<times> 'r world) \<Rightarrow> string \<Rightarrow> int \<Rightarrow> int \<Rightarrow> 'r world
    \<Rightarrow> (error + 'a) \<times> 'r world"
where
  "retryLoop operation operationName retries attempt w =
     (if attempt \<le> retries then
        (case operation w of
           (Inr v, w1) \<Rightarrow> (Inr v, w1)
         | (Inl e, w1) \<Rightarrow>
             if \<not> isRateLimitError e \<or> attempt = retries then (Inl e, w1)
             else
               (case Math_random w1 of
                  (r, w2) \<Rightarrow>
                    let exponentialDelay = INITIAL_RETRY_DELAY * 2 ^ nat attempt;
                        jitter = r * 1000;
                        delay = exponentialDelay + jitter;
                        w3 = logWarning (retryMessage operationName delay attempt retries) w2;
                        w4 = sleep delay w3
                    in retryLoop operation operationName retries (attempt + 1) w4))
      else (Inl (Error ''Error'' (''Failed after '' @ showInt retries @ '' retries'') None), w))"
  by pat_completeness auto
termination
  by (relation "measure (\<lambda>(operation, operationName, retries, attempt, w). nat (retries + 1 - attempt))")
     auto

definition retryWithBackoff ::
  "('r world \<Rightarrow> (error + 'a) \<times> 'r world) \<Rightarrow> string \<Rightarrow> int \<Rightarrow> 'r world \<Rightarrow> (error + 'a) \<times> 'r world"
where
  "retryWithBackoff operation operationName retries w =
     retryLoop operation operationName retries 0 w"

section \<open>getUserName (lines 186-224)\<close>

definition deletedUser :: "string \<Rightarrow> string" where
  "deletedUser userId = ''[Deleted User: '' @ userId @ '']''"

text \<open>
  The function in three parts: the look into the cache (lines 192-194), the awaited
  lookup (lines 197-206), and what follows the \<^verbatim>\<open>await\<close>. Run one after the other they are
  the function; the parts are named because another call can run between them.
\<close>

definition getUserName_fetch ::
  "'r IdentitystoreClient \<Rightarrow> string \<Rightarrow> string \<Rightarrow> 'r world
    \<Rightarrow> (error + DescribeUserResponse) \<times> 'r world"
where
  "getUserName_fetch identityStoreClient identityStoreId userId w =
     retryWithBackoff
       (send (describeUser identityStoreClient identityStoreId userId)
          (DescribeUserCommand identityStoreId userId))
       (''DescribeUser('' @ take 8 userId @ ''...)'')
       MAX_RETRIES w"

text \<open>
  What the function does once the awaited \<^verbatim>\<open>retryWithBackoff\<close> of line 197 has settled:
  lines 208-210 when it resolved, the \<^verbatim>\<open>catch\<close> block of lines 211-223 when it rejected.
\<close>

definition getUserName_settle ::
  "string \<Rightarrow> error + DescribeUserResponse \<Rightarrow> 'r world \<Rightarrow> (error + string) \<times> 'r world"
where
  "getUserName_settle userId outcome w =
     (case outcome of
        Inr response \<Rightarrow>
          let userName = orElse (UserName response) userId
          in (Inr userName, w\<lparr>userCache := (userCache w)(userId \<mapsto> userName)\<rparr>)
      | Inl e \<Rightarrow>
          let result =
                (if errorName e = ''ResourceNotFoundException'' then deletedUser userId
                 else userId);
              w1 =
                (if errorName e \<noteq> ''ResourceNotFoundException''
                 then consoleError (''Error fetching user '' @ userId @ '':'') e w
                 else w)
          in (Inr result, w1\<lparr>userCache := (userCache w1)(userId \<mapsto> result)\<rparr>))"

definition getUserName ::
  "'r IdentitystoreClient \<Rightarrow> string \<Rightarrow> string \<Rightarrow> 'r world \<Rightarrow> (error + string) \<times> 'r world"
where
  "getUserName identityStoreClient identityStoreId userId w =
     (case userCache w userId of
        Some cached \<Rightarrow> (Inr cached, w)
      | None \<Rightarrow>
          (case getUserName_fetch identityStoreClient identityStoreId userId w of
             (outcome, w1) \<Rightarrow> getUserName_settle userId outcome w1))"

section \<open>getGroupName (lines 226-264)\<close>

definition deletedGroup :: "string \<Rightarrow> string" where
  "deletedGroup groupId = ''[Deleted Group: '' @ groupId @ '']''"

definition getGroupName ::
  "'r IdentitystoreClient \<Rightarrow> string \<Rightarrow> string \<Rightarrow> 'r world \<Rightarrow> (error + string) \<times> 'r world"
where
  "getGroupName identityStoreClient identityStoreId groupId w =
     (case groupCache w groupId of
        Some cached \<Rightarrow> (Inr cached, w)
      | None \<Rightarrow>
          (case retryWithBackoff
                  (send (describeGroup identityStoreClient identityStoreId groupId)
                     (DescribeGroupCommand identityStoreId groupId))
                  (''DescribeGroup('' @ take 8 groupId @ ''...)'')
                  MAX_RETRIES w of
             (Inr response, w1) \<Rightarrow>
               let grpName = orElse (DisplayName response) groupId
               in (Inr grpName, w1\<lparr>groupCache := (groupCache w1)(groupId \<mapsto> grpName)\<rparr>)
           | (Inl e, w1) \<Rightarrow>
               let result =
                     (if errorName e = ''ResourceNotFoundException'' then deletedGroup groupId
                      else groupId);
                   w2 =
                     (if errorName e \<noteq> ''ResourceNotFoundException''
                      then consoleError (''Error fetching group '' @ groupId @ '':'') e w1
                      else w1)
               in (Inr result, w2\<lparr>groupCache := (groupCache w2)(groupId \<mapsto> result)\<rparr>)))"

section \<open>getGroupMembers (lines 266-308)\<close>

text \<open>Lines 289-295: the user ids of one page, those that are present and not empty.\<close>

definition memberUserIds :: "GroupMembership list option \<Rightarrow> string list" where
  "memberUserIds memberships =
     (case memberships of
        None \<Rightarrow> []
      | Some ms \<Rightarrow>
          concat (map (\<lambda>m. case MemberId_UserId m of
                              None \<Rightarrow> []
                            | Some u \<Rightarrow> if u = [] then [] else [u]) ms))"

text \<open>
  The \<^verbatim>\<open>do ... while (nextToken)\<close> loop of lines 280-298. It runs for as long as the
  service returns a token, so it takes fuel: one unit per page, \<open>None\<close> when the fuel
  runs out. The array \<^verbatim>\<open>members\<close> is filled in place, so when a page request throws,
  what was pushed before stays: the loop returns the error together with the members.
\<close>

fun getGroupMembers_pages ::
  "nat \<Rightarrow> 'r IdentitystoreClient \<Rightarrow> string \<Rightarrow> string \<Rightarrow> string list \<Rightarrow> string option \<Rightarrow> 'r world
    \<Rightarrow> ((error option \<times> string list) \<times> 'r world) option"
where
  "getGroupMembers_pages 0 identityStoreClient identityStoreId groupId members nextToken w = None"
| "getGroupMembers_pages (Suc fuel) identityStoreClient identityStoreId groupId members nextToken w =
     (case send (listGroupMemberships identityStoreClient identityStoreId groupId nextToken)
             (ListGroupMembershipsCommand identityStoreId groupId nextToken) w of
        (Inl e, w1) \<Rightarrow> Some ((Some e, members), w1)
      | (Inr response, w1) \<Rightarrow>
          let members1 = members @ memberUserIds (GroupMemberships response);
              nextToken1 = MembershipsNextToken response
          in if truthy nextToken1
             then getGroupMembers_pages fuel identityStoreClient identityStoreId groupId members1
                    nextToken1 w1
             else Some ((None, members1), w1))"

definition getGroupMembers ::
  "nat \<Rightarrow> 'r IdentitystoreClient \<Rightarrow> string \<Rightarrow> string \<Rightarrow> 'r world
    \<Rightarrow> ((error + string list) \<times> 'r world) option"
where
  "getGroupMembers fuel identityStoreClient identityStoreId groupId w =
     (case groupMembersCache w groupId of
        Some cached \<Rightarrow> Some (Inr cached, w)
      | None \<Rightarrow>
          (case getGroupMembers_pages fuel identityStoreClient identityStoreId groupId [] None w of
             None \<Rightarrow> None
           | Some ((thrown, members), w1) \<Rightarrow>
               let w2 =
                     (case thrown of
                        None \<Rightarrow> w1
                      | Some e \<Rightarrow>
                          if errorName e \<noteq> ''ResourceNotFoundException''
                          then consoleError
                                 (''Error fetching group members for '' @ groupId @ '':'') e w1
                          else w1)
               in Some (Inr members,
                        w2\<lparr>groupMembersCache := (groupMembersCache w2)(groupId \<mapsto> members)\<rparr>)))"

section \<open>getAssignments (lines 310-391)\<close>

text \<open>
  The rows pushed at lines 347-353 and 374-381. The parameter \<^verbatim>\<open>permissionSetName\<close> and
  the local \<^verbatim>\<open>groupName\<close> are written \<open>psName\<close> and \<open>grpName\<close> here, the names being those
  of the fields of \<open>AdminAssignment\<close>.
\<close>

definition userRow :: "string \<Rightarrow> string \<Rightarrow> string \<Rightarrow> AdminAssignment" where
  "userRow accountId name psName =
     \<lparr>accountNumber = accountId, accountName = [], username = name,
      permissionSetName = psName, assignmentType = USER, groupName = None\<rparr>"

definition groupRow :: "string \<Rightarrow> string \<Rightarrow> string \<Rightarrow> string \<Rightarrow> AdminAssignment" where
  "groupRow accountId name psName grpName =
     \<lparr>accountNumber = accountId, accountName = [], username = name,
      permissionSetName = psName, assignmentType = GROUP, groupName = Some grpName\<rparr>"

text \<open>The inner loop of lines 367-382: one row per member of the group.\<close>

fun expandMembers ::
  "'r IdentitystoreClient \<Rightarrow> string \<Rightarrow> string \<Rightarrow> string \<Rightarrow> string \<Rightarrow> string list
    \<Rightarrow> AdminAssignment list \<Rightarrow> 'r world \<Rightarrow> (error + AdminAssignment list) \<times> 'r world"
where
  "expandMembers identityStoreClient identityStoreId accountId psName grpName [] assignments w =
     (Inr assignments, w)"
| "expandMembers identityStoreClient identityStoreId accountId psName grpName (memberId # rest)
     assignments w =
     (case getUserName identityStoreClient identityStoreId memberId w of
        (Inl e, w1) \<Rightarrow> (Inl e, w1)
      | (Inr name, w1) \<Rightarrow>
          expandMembers identityStoreClient identityStoreId accountId psName grpName rest
            (assignments @ [groupRow accountId name psName grpName]) w1)"

text \<open>
  The loop of lines 337-384 over the references of one page. \<open>assignments\<close> is the array
  of rows pushed so far; \<open>limit\<close> is the fuel of each membership listing.
\<close>

fun processAssignments ::
  "nat \<Rightarrow> 'r IdentitystoreClient \<Rightarrow> string \<Rightarrow> string \<Rightarrow> string \<Rightarrow> AccountAssignment list
    \<Rightarrow> AdminAssignment list \<Rightarrow> 'r world \<Rightarrow> ((error + AdminAssignment list) \<times> 'r world) option"
where
  "processAssignments limit identityStoreClient identityStoreId accountId psName [] assignments w =
     Some (Inr assignments, w)"
| "processAssignments limit identityStoreClient identityStoreId accountId psName (assignment # rest)
     assignments w =
     (if \<not> truthy (PrincipalId assignment) \<or> \<not> truthy (PrincipalType assignment) then
        processAssignments limit identityStoreClient identityStoreId accountId psName rest
          assignments w
      else if PrincipalType assignment = Some ''USER'' then
        (case getUserName identityStoreClient identityStoreId (the (PrincipalId assignment)) w of
           (Inl e, w1) \<Rightarrow> Some (Inl e, w1)
         | (Inr name, w1) \<Rightarrow>
             processAssignments limit identityStoreClient identityStoreId accountId psName rest
               (assignments @ [userRow accountId name psName]) w1)
      else if PrincipalType assignment = Some ''GROUP'' then
        (case getGroupName identityStoreClient identityStoreId (the (PrincipalId assignment)) w of
           (Inl e, w1) \<Rightarrow> Some (Inl e, w1)
         | (Inr grpName, w1) \<Rightarrow>
             (case getGroupMembers limit identityStoreClient identityStoreId
                     (the (PrincipalId assignment)) w1 of
                None \<Rightarrow> None
              | Some (Inl e, w2) \<Rightarrow> Some (Inl e, w2)
              | Some (Inr members, w2) \<Rightarrow>
                  (case expandMembers identityStoreClient identityStoreId accountId psName
                          grpName members assignments w2 of
                     (Inl e, w3) \<Rightarrow> Some (Inl e, w3)
                   | (Inr assignments1, w3) \<Rightarrow>
                       processAssignments limit identityStoreClient identityStoreId accountId
                         psName rest assignments1 w3)))
      else
        processAssignments limit identityStoreClient identityStoreId accountId psName rest
          assignments w)"

text \<open>
  The \<^verbatim>\<open>do ... while (nextToken)\<close> loop of lines 322-388, with fuel as above: one unit
  per page of assignments.
\<close>

fun getAssignments_pages ::
  "nat \<Rightarrow> nat \<Rightarrow> 'r SSOAdminClient \<Rightarrow> 'r IdentitystoreClient \<Rightarrow> string \<Rightarrow> string \<Rightarrow> string
    \<Rightarrow> string \<Rightarrow> string \<Rightarrow> AdminAssignment list \<Rightarrow> string option \<Rightarrow> 'r world
    \<Rightarrow> ((error + AdminAssignment list) \<times> 'r world) option"
where
  "getAssignments_pages 0 limit ssoAdminClient identityStoreClient instanceArn identityStoreId
     accountId permissionSetArn psName assignments nextToken w = None"
| "getAssignments_pages (Suc fuel) limit ssoAdminClient identityStoreClient instanceArn
     identityStoreId accountId permissionSetArn psName assignments nextToken w =
     (case retryWithBackoff
             (send (listAccountAssignments ssoAdminClient instanceArn accountId permissionSetArn
                      nextToken)
                (ListAccountAssignmentsCommand instanceArn accountId permissionSetArn nextToken))
             (''ListAccountAssignments('' @ accountId @ '')'')
             MAX_RETRIES w of
        (Inl e, w1) \<Rightarrow> Some (Inl e, w1)
      | (Inr response, w1) \<Rightarrow>
          (case (case AccountAssignments response of
                   None \<Rightarrow> Some (Inr assignments, w1)
                 | Some refs \<Rightarrow>
                     processAssignments limit identityStoreClient identityStoreId accountId
                       psName refs assignments w1) of
             None \<Rightarrow> None
           | Some (Inl e, w2) \<Rightarrow> Some (Inl e, w2)
           | Some (Inr assignments1, w2) \<Rightarrow>
               if truthy (AssignmentsNextToken response)
               then getAssignments_pages fuel limit ssoAdminClient identityStoreClient
                      instanceArn identityStoreId accountId permissionSetArn psName assignments1
                      (AssignmentsNextToken response) w2
               else Some (Inr assignments1, w2)))"

definition getAssignments ::
  "nat \<Rightarrow> 'r SSOAdminClient \<Rightarrow> 'r IdentitystoreClient \<Rightarrow> string \<Rightarrow> string \<Rightarrow> string \<Rightarrow> string
    \<Rightarrow> string \<Rightarrow> 'r world \<Rightarrow> ((error + AdminAssignment list) \<times> 'r world) option"
where
  "getAssignments fuel ssoAdminClient identityStoreClient instanceArn identityStoreId accountId
     permissionSetArn psName w =
     getAssignments_pages fuel fuel ssoAdminClient identityStoreClient instanceArn identityStoreId
       accountId permissionSetArn psName [] None w"

section \<open>main: the tasks and the aggregation (lines 520-616)\<close>

text \<open>
  One task per account and permission set (lines 521-537). The two \<^verbatim>\<open>Map\<close>s the tasks
  are built from are association lists in insertion order; a \<^verbatim>\<open>Map\<close> holds each key once.
\<close>

record Task =
  task_accountId :: string
  task_accountName :: string
  task_permissionSetArn :: string
  task_permissionSetName :: string

definition allTasks :: "(string \<times> string) list \<Rightarrow> (string \<times> string) list \<Rightarrow> Task list" where
  "allTasks accounts allPermissionSets =
     concat (map (\<lambda>(accountId, accountName).
       map (\<lambda>(permissionSetArn, psName).
              \<lparr>task_accountId = accountId, task_accountName = accountName,
               task_permissionSetArn = permissionSetArn, task_permissionSetName = psName\<rparr>)
           allPermissionSets) accounts)"

text \<open>Lines 566-568: the account's name is written into every row of the task.\<close>

definition withAccountName :: "Task \<Rightarrow> AdminAssignment list \<Rightarrow> AdminAssignment list" where
  "withAccountName task assignments =
     map (\<lambda>assignment. assignment\<lparr>accountName := task_accountName task\<rparr>) assignments"

text \<open>
  The body of one task (lines 544-599) without its progress display: the rows of the
  task's account and permission set, with the account's name written into them.
\<close>

definition runTask ::
  "nat \<Rightarrow> 'r SSOAdminClient \<Rightarrow> 'r IdentitystoreClient \<Rightarrow> string \<Rightarrow> string \<Rightarrow> Task \<Rightarrow> 'r world
    \<Rightarrow> ((error + Task \<times> AdminAssignment list) \<times> 'r world) option"
where
  "runTask fuel ssoAdminClient identityStoreClient instanceArn identityStoreId task w =
     (case getAssignments fuel ssoAdminClient identityStoreClient instanceArn identityStoreId
             (task_accountId task) (task_permissionSetArn task) (task_permissionSetName task) w of
        None \<Rightarrow> None
      | Some (Inl e, w1) \<Rightarrow> Some (Inl e, w1)
      | Some (Inr assignments, w1) \<Rightarrow> Some (Inr (task, withAccountName task assignments), w1))"

text \<open>
  Line 602, \<^verbatim>\<open>await Promise.all(taskPromises)\<close>, the language's: a promise that is
  fulfilled puts its value at its own index of the array of values, and the array is
  handed over once every promise has been fulfilled (\<open>None\<close> before that). \<open>settled\<close>
  lists the promises in the order in which they were fulfilled, each with its index in
  \<^verbatim>\<open>taskPromises\<close>, which is below the number \<open>n\<close> of promises, and its value. (When a
  task fails, \<^verbatim>\<open>Promise.all\<close> fails, and \<^verbatim>\<open>main\<close> ends in its \<^verbatim>\<open>catch\<close> block without
  writing a file.)
\<close>

definition promiseAll :: "nat \<Rightarrow> (nat \<times> 'a) list \<Rightarrow> 'a list option" where
  "promiseAll n settled =
     (let vals = foldl (\<lambda>vals (index, v). vals[index := Some v]) (replicate n None) settled
      in if list_all (\<lambda>v. v \<noteq> None) vals then Some (map the vals) else None)"

text \<open>
  Lines 605-611. \<^verbatim>\<open>accountMap\<close> is a \<^verbatim>\<open>Map\<close>: \<^verbatim>\<open>set\<close> of a new key appends an entry,
  and \<^verbatim>\<open>get(k)!.push(...)\<close> changes the entry of \<open>k\<close> where it stands.
\<close>

definition groupStep ::
  "(string \<times> AdminAssignment list) list \<Rightarrow> Task \<times> AdminAssignment list
    \<Rightarrow> (string \<times> AdminAssignment list) list"
where
  "groupStep accountMap result =
     (case result of
        (task, assignments) \<Rightarrow>
          let accountMap1 =
                (if map_of accountMap (task_accountId task) = None
                 then AList.update (task_accountId task) [] accountMap
                 else accountMap)
          in AList.map_entry (task_accountId task) (\<lambda>rows. rows @ assignments) accountMap1)"

definition groupByAccount ::
  "(Task \<times> AdminAssignment list) list \<Rightarrow> (string \<times> AdminAssignment list) list"
where
  "groupByAccount allTaskResults = foldl groupStep [] allTaskResults"

text \<open>Lines 614-616.\<close>

definition flattenAccounts :: "(string \<times> AdminAssignment list) list \<Rightarrow> AdminAssignment list" where
  "flattenAccounts accountMap = concat (map snd accountMap)"

definition aggregate :: "(Task \<times> AdminAssignment list) list \<Rightarrow> AdminAssignment list" where
  "aggregate allTaskResults = flattenAccounts (groupByAccount allTaskResults)"

section \<open>main: the CSV file (lines 626-651)\<close>

definition comma :: char where
  "comma = CHR '',''"

definition dquote :: char where
  "dquote = CHR 0x22"

definition newline :: char where
  "newline = CHR 0x0A"

text \<open>\<^verbatim>\<open>value.replace(/"/g, '""')\<close>\<close>

definition doubleQuotes :: "string \<Rightarrow> string" where
  "doubleQuotes v = concat (map (\<lambda>c. if c = dquote then [dquote, dquote] else [c]) v)"

definition escapeCsv :: "string \<Rightarrow> string" where
  "escapeCsv v =
     (if comma \<in> set v \<or> dquote \<in> set v \<or> newline \<in> set v
      then [dquote] @ doubleQuotes v @ [dquote]
      else v)"

text \<open>\<^verbatim>\<open>Array.prototype.join\<close>\<close>

fun join :: "string \<Rightarrow> string list \<Rightarrow> string" where
  "join sep [] = []"
| "join sep [x] = x"
| "join sep (x # y # ys) = x @ sep @ join sep (y # ys)"

definition csvHeader :: string where
  "csvHeader = ''Account Number,Account Name,Username,Permission Set,Group''"

definition csvFields :: "AdminAssignment \<Rightarrow> string list" where
  "csvFields assignment =
     [accountNumber assignment, accountName assignment, username assignment,
      permissionSetName assignment, orElse (groupName assignment) []]"

definition csvLine :: "AdminAssignment \<Rightarrow> string" where
  "csvLine assignment = join [comma] (map escapeCsv (csvFields assignment))"

definition csvLines :: "AdminAssignment list \<Rightarrow> string list" where
  "csvLines allAssignments = csvHeader # map csvLine allAssignments"

definition csvContent :: "AdminAssignment list \<Rightarrow> string" where
  "csvContent allAssignments = join [newline] (csvLines allAssignments)"

section \<open>A reader for delimited text\<close>

text \<open>
  The reference the escaping is measured against: a reader of delimited text, with the
  comma between fields and a field that starts with a double quote running to the next
  double quote that is not doubled, a doubled one standing for one. Readers differ in
  the characters that end a record outside quotes (the line feed alone, or the carriage
  return as well), so the reader takes the set \<open>breaks\<close> of these characters. The program
  writes a line feed between records. The reader is not part of the program.
\<close>

datatype csvState = FieldStart | InUnquoted | InQuoted | AfterQuote

fun csvRead ::
  "char set \<Rightarrow> csvState \<Rightarrow> string \<Rightarrow> string list \<Rightarrow> string list list \<Rightarrow> string
    \<Rightarrow> string list list"
where
  "csvRead breaks st field row rows [] = rows @ [row @ [field]]"
| "csvRead breaks InQuoted field row rows (c # cs) =
     (if c = dquote then csvRead breaks AfterQuote field row rows cs
      else csvRead breaks InQuoted (field @ [c]) row rows cs)"
| "csvRead breaks AfterQuote field row rows (c # cs) =
     (if c = dquote then csvRead breaks InQuoted (field @ [dquote]) row rows cs
      else if c = comma then csvRead breaks FieldStart [] (row @ [field]) rows cs
      else if c \<in> breaks then csvRead breaks FieldStart [] [] (rows @ [row @ [field]]) cs
      else csvRead breaks InUnquoted (field @ [c]) row rows cs)"
| "csvRead breaks FieldStart field row rows (c # cs) =
     (if c = dquote then csvRead breaks InQuoted [] row rows cs
      else if c = comma then csvRead breaks FieldStart [] (row @ [field]) rows cs
      else if c \<in> breaks then csvRead breaks FieldStart [] [] (rows @ [row @ [field]]) cs
      else csvRead breaks InUnquoted (field @ [c]) row rows cs)"
| "csvRead breaks InUnquoted field row rows (c # cs) =
     (if c = comma then csvRead breaks FieldStart [] (row @ [field]) rows cs
      else if c \<in> breaks then csvRead breaks FieldStart [] [] (rows @ [row @ [field]]) cs
      else csvRead breaks InUnquoted (field @ [c]) row rows cs)"

definition parseCsv :: "char set \<Rightarrow> string \<Rightarrow> string list list" where
  "parseCsv breaks s = csvRead breaks FieldStart [] [] [] s"

text \<open>
  A set of record breaks a reader can have: the line feed is in it, the comma and the
  double quote are not.
\<close>

definition recordBreaks :: "char set \<Rightarrow> bool" where
  "recordBreaks breaks \<longleftrightarrow> newline \<in> breaks \<and> comma \<notin> breaks \<and> dquote \<notin> breaks"

definition carriageReturn :: char where
  "carriageReturn = CHR 0x0D"

section \<open>Notions used in the statements and proofs\<close>

text \<open>
  Where the reader stands after a field: at the end of the text, or before the
  separator that ends the field. \<open>fieldEnd\<close> is what it does from there.
\<close>

definition atFieldEnd :: "char set \<Rightarrow> string \<Rightarrow> bool" where
  "atFieldEnd breaks rest = (case rest of [] \<Rightarrow> True | c # cs \<Rightarrow> c = comma \<or> c \<in> breaks)"

definition fieldEnd ::
  "char set \<Rightarrow> string \<Rightarrow> string list \<Rightarrow> string list list \<Rightarrow> string \<Rightarrow> string list list"
where
  "fieldEnd breaks field row rows rest =
     (case rest of
        [] \<Rightarrow> rows @ [row @ [field]]
      | c # cs \<Rightarrow>
          if c = comma then csvRead breaks FieldStart [] (row @ [field]) rows cs
          else csvRead breaks FieldStart [] [] (rows @ [row @ [field]]) cs)"

definition atLineEnd :: "string \<Rightarrow> bool" where
  "atLineEnd rest = (case rest of [] \<Rightarrow> True | c # cs \<Rightarrow> c = newline)"

definition lineEnd :: "char set \<Rightarrow> string list \<Rightarrow> string list list \<Rightarrow> string \<Rightarrow> string list list" where
  "lineEnd breaks row rows rest =
     (case rest of
        [] \<Rightarrow> rows @ [row]
      | c # cs \<Rightarrow> csvRead breaks FieldStart [] [] (rows @ [row]) cs)"

text \<open>
  A value is quoted by \<open>escapeCsv\<close> when it holds a comma, a double quote or a line feed.
  It can be read back when it is quoted or holds no record break of the reader.
\<close>

definition quoted :: "string \<Rightarrow> bool" where
  "quoted v \<longleftrightarrow> comma \<in> set v \<or> dquote \<in> set v \<or> newline \<in> set v"

definition readable :: "char set \<Rightarrow> string \<Rightarrow> bool" where
  "readable breaks v \<longleftrightarrow> quoted v \<or> set v \<inter> breaks = {}"

definition headerFields :: "string list" where
  "headerFields =
     [''Account Number'', ''Account Name'', ''Username'', ''Permission Set'', ''Group'']"

text \<open>The tasks of one account: one pass of the inner loop of lines 529-536.\<close>

definition accountTasks :: "string \<times> string \<Rightarrow> (string \<times> string) list \<Rightarrow> Task list" where
  "accountTasks account allPermissionSets =
     map (\<lambda>(permissionSetArn, psName).
            \<lparr>task_accountId = fst account, task_accountName = snd account,
             task_permissionSetArn = permissionSetArn, task_permissionSetName = psName\<rparr>)
         allPermissionSets"

text \<open>
  What a task hands to \<^verbatim>\<open>Promise.all\<close> (line 598) when \<open>getAssignments\<close> produced the rows
  \<open>produced task\<close> for it, and the promises of the results fulfilled in the order
  \<open>finished\<close> (a list of indices).
\<close>

definition taskResult :: "(Task \<Rightarrow> AdminAssignment list) \<Rightarrow> Task \<Rightarrow> Task \<times> AdminAssignment list" where
  "taskResult produced task = (task, withAccountName task (produced task))"

definition settledIn :: "nat list \<Rightarrow> 'a list \<Rightarrow> (nat \<times> 'a) list" where
  "settledIn finished results = map (\<lambda>index. (index, results ! index)) finished"

text \<open>The sleeps and the remote calls of a trace, in order.\<close>

fun sleeps :: "event list \<Rightarrow> real list" where
  "sleeps [] = []"
| "sleeps (Sleep d # evs) = d # sleeps evs"
| "sleeps (ev # evs) = sleeps evs"

fun sentCalls :: "event list \<Rightarrow> call list" where
  "sentCalls [] = []"
| "sentCalls (Sent c # evs) = c # sentCalls evs"
| "sentCalls (ev # evs) = sentCalls evs"

text \<open>Two worlds agree on the caches, the logger and the random source.\<close>

definition sameCaches :: "'r world \<Rightarrow> 'r world \<Rightarrow> bool" where
  "sameCaches w w' \<longleftrightarrow>
     userCache w' = userCache w \<and> groupCache w' = groupCache w \<and>
     groupMembersCache w' = groupMembersCache w \<and> globalLogger w' = globalLogger w \<and>
     random w' = random w"

text \<open>The world after lines 87-99 of one failed attempt: the draw, the warning, the sleep.\<close>

definition afterBackoff :: "string \<Rightarrow> int \<Rightarrow> int \<Rightarrow> 'r world \<Rightarrow> 'r world" where
  "afterBackoff operationName retries attempt w =
     (let delay = INITIAL_RETRY_DELAY * 2 ^ nat attempt + random w (drawn w) * 1000
      in sleep delay
           (logWarning (retryMessage operationName delay attempt retries)
              (w\<lparr>drawn := Suc (drawn w)\<rparr>)))"

definition delays :: "(nat \<Rightarrow> real) \<Rightarrow> nat \<Rightarrow> nat \<Rightarrow> nat \<Rightarrow> real list" where
  "delays rnd d a n = map (\<lambda>k. INITIAL_RETRY_DELAY * 2 ^ (a + k) + rnd (d + k) * 1000) [0..<n]"


section \<open>Services and worlds for the examples\<close>

text \<open>A fresh run: empty caches, the logger set, every draw of the random source 1/4.\<close>

definition world0 :: "nat world" where
  "world0 = \<lparr>remote = 0, userCache = Map.empty, groupCache = Map.empty,
             groupMembersCache = Map.empty, globalLogger = True,
             random = (\<lambda>n. 1 / 4), drawn = 0, trace = []\<rparr>"

definition throttled :: error where
  "throttled = Error ''ThrottlingException'' ''Rate exceeded'' (Some 400)"

definition accessDenied :: error where
  "accessDenied = Error ''AccessDeniedException'' ''not authorized'' (Some 400)"

definition notFound :: error where
  "notFound = Error ''ResourceNotFoundException'' ''not found'' (Some 400)"

text \<open>
  Services whose state counts the requests they have received: one throttles the first
  two requests and then answers, one throttles every request, one refuses every request.
\<close>

definition throttleTwice :: "nat \<Rightarrow> (error + DescribeUserResponse) \<times> nat" where
  "throttleTwice n =
     (if n < 2 then Inl throttled else Inr \<lparr>UserName = Some ''alice''\<rparr>, Suc n)"


definition denyAll :: "nat \<Rightarrow> (error + DescribeUserResponse) \<times> nat" where
  "denyAll n = (Inl accessDenied, Suc n)"

text \<open>
  Example identity stores over a request counter. \<open>goneStore\<close> answers every request with
  a not-found error, \<open>deniedStore\<close> with an access-denied error. \<open>flakyStore\<close> knows the
  user \<^verbatim>\<open>u-1\<close> as alice and answers the first request it receives; every later request
  fails with an internal error.
\<close>

definition internalError :: error where
  "internalError = Error ''InternalServerException'' ''internal failure'' (Some 500)"

definition goneStore :: "nat IdentitystoreClient" where
  "goneStore =
     \<lparr>describeUser = (\<lambda>sid uid n. (Inl notFound, Suc n)),
      describeGroup = (\<lambda>sid gid n. (Inl notFound, Suc n)),
      listGroupMemberships = (\<lambda>sid gid tok n. (Inl notFound, Suc n))\<rparr>"

definition deniedStore :: "nat IdentitystoreClient" where
  "deniedStore =
     \<lparr>describeUser = (\<lambda>sid uid n. (Inl accessDenied, Suc n)),
      describeGroup = (\<lambda>sid gid n. (Inl accessDenied, Suc n)),
      listGroupMemberships = (\<lambda>sid gid tok n. (Inl accessDenied, Suc n))\<rparr>"

definition flakyStore :: "nat IdentitystoreClient" where
  "flakyStore =
     \<lparr>describeUser =
        (\<lambda>sid uid n. (if n = 0 then Inr \<lparr>UserName = Some ''alice''\<rparr> else Inl internalError, Suc n)),
      describeGroup = (\<lambda>sid gid n. (Inl internalError, Suc n)),
      listGroupMemberships = (\<lambda>sid gid tok n. (Inl internalError, Suc n))\<rparr>"

text \<open>Every entry of the three caches of \<open>w\<close> is an entry of \<open>w'\<close>, with the same value.\<close>

definition cachesGrow :: "'r world \<Rightarrow> 'r world \<Rightarrow> bool" where
  "cachesGrow w w' \<longleftrightarrow>
     userCache w \<subseteq>\<^sub>m userCache w' \<and> groupCache w \<subseteq>\<^sub>m groupCache w' \<and>
     groupMembersCache w \<subseteq>\<^sub>m groupMembersCache w'"

text \<open>The assignment references a trace has received: those of every page that came back.\<close>

fun refsOfCall :: "call \<Rightarrow> AccountAssignment list" where
  "refsOfCall (ListAccountAssignmentsCommand arn acct ps tok (Inr response)) =
     (case AccountAssignments response of None \<Rightarrow> [] | Some refs \<Rightarrow> refs)"
| "refsOfCall c = []"

definition receivedAssignments :: "event list \<Rightarrow> AccountAssignment list" where
  "receivedAssignments evs = concat (map refsOfCall (sentCalls evs))"

text \<open>
  A step from \<open>w\<close> to \<open>w'\<close> is quiet when the caches only grew and the trace was extended
  by events that brought no assignment references.
\<close>

definition quiet :: "'r world \<Rightarrow> 'r world \<Rightarrow> bool" where
  "quiet w w' \<longleftrightarrow>
     cachesGrow w w' \<and> (\<exists>new. trace w' = trace w @ new \<and> receivedAssignments new = [])"

text \<open>
  The references that lead to rows: those with an id and a type, of type \<^verbatim>\<open>USER\<close> or
  \<^verbatim>\<open>GROUP\<close>.
\<close>

definition validRef :: "AccountAssignment \<Rightarrow> bool" where
  "validRef a \<longleftrightarrow> truthy (PrincipalId a) \<and> truthy (PrincipalType a)"

definition userRefs :: "AccountAssignment list \<Rightarrow> AccountAssignment list" where
  "userRefs refs = filter (\<lambda>a. validRef a \<and> PrincipalType a = Some ''USER'') refs"

definition groupRefs :: "AccountAssignment list \<Rightarrow> AccountAssignment list" where
  "groupRefs refs = filter (\<lambda>a. validRef a \<and> PrincipalType a = Some ''GROUP'') refs"

text \<open>
  What the service has said about the members of a group, read from the trace. The
  members of a page of memberships that came back are its user ids that are present and
  not empty. The members listed for a group in a trace are the members of every page
  that came back for the group, in the order of the requests; a request that failed
  brought none. A group is listed in a trace when a page of its memberships was asked
  for, whatever came back.
\<close>

definition pageMembers :: "ListGroupMembershipsResponse \<Rightarrow> string list" where
  "pageMembers response =
     filter (\<lambda>u. u \<noteq> [])
       (List.map_filter MemberId_UserId
          (case GroupMemberships response of None \<Rightarrow> [] | Some ms \<Rightarrow> ms))"

fun membersOfCall :: "string \<Rightarrow> call \<Rightarrow> string list" where
  "membersOfCall g (ListGroupMembershipsCommand sid gid tok (Inr response)) =
     (if gid = g then pageMembers response else [])"
| "membersOfCall g c = []"

fun listsGroup :: "string \<Rightarrow> call \<Rightarrow> bool" where
  "listsGroup g (ListGroupMembershipsCommand sid gid tok outcome) = (gid = g)"
| "listsGroup g c = False"

definition listedMembers :: "event list \<Rightarrow> string \<Rightarrow> string list" where
  "listedMembers evs g = concat (map (membersOfCall g) (sentCalls evs))"

definition listed :: "event list \<Rightarrow> string \<Rightarrow> bool" where
  "listed evs g = list_ex (listsGroup g) (sentCalls evs)"

text \<open>
  The members known for a group in a call that begins in the world \<open>w\<close> and adds the
  events \<open>new\<close> to the trace: the list the cache held for the group when the call began
  or, when it held none, the members the service listed for the group during the call.
  \<open>rowCount\<close> is the number of rows the references stand for: one for every user
  reference, and for every group reference one per known member of the group.
\<close>

definition knownMembers :: "'r world \<Rightarrow> event list \<Rightarrow> string \<Rightarrow> string list" where
  "knownMembers w new g =
     (case groupMembersCache w g of Some cached \<Rightarrow> cached | None \<Rightarrow> listedMembers new g)"

definition rowCount :: "'r world \<Rightarrow> event list \<Rightarrow> AccountAssignment list \<Rightarrow> nat" where
  "rowCount w new refs =
     length (userRefs refs) +
     sum_list (map (\<lambda>a. length (knownMembers w new (the (PrincipalId a)))) (groupRefs refs))"

text \<open>
  The invariant of a run made of whole calls of the resolution functions, from \<open>w\<close> to
  \<open>w'\<close> with the events \<open>new\<close>: the caches only grew; a group whose members were cached in
  \<open>w\<close> was not listed again; and the member cache of \<open>w'\<close> holds, for a group that was not
  cached in \<open>w\<close>, the members listed in \<open>new\<close> if the group was listed and nothing if it
  was not.
\<close>

definition tracked :: "'r world \<Rightarrow> event list \<Rightarrow> 'r world \<Rightarrow> bool" where
  "tracked w new w' \<longleftrightarrow>
     trace w' = trace w @ new \<and> cachesGrow w w' \<and>
     (\<forall>g. groupMembersCache w g \<noteq> None \<longrightarrow> \<not> listed new g) \<and>
     (\<forall>g. groupMembersCache w' g =
            (case groupMembersCache w g of
               Some cached \<Rightarrow> Some cached
             | None \<Rightarrow> if listed new g then Some (listedMembers new g) else None))"


text \<open>The references of one page of assignments.\<close>

definition pageRefs :: "ListAccountAssignmentsResponse \<Rightarrow> AccountAssignment list" where
  "pageRefs response = (case AccountAssignments response of None \<Rightarrow> [] | Some refs \<Rightarrow> refs)"

text \<open>
  An example organisation: two pages of assignments (a user, a group and a reference
  without id; then another user and the group again), three users, and the group
  \<^verbatim>\<open>g-1\<close> named Devs whose two members come on two pages of memberships.
\<close>

definition exampleSso :: "nat SSOAdminClient" where
  "exampleSso =
     \<lparr>listAccountAssignments =
        (\<lambda>arn acct ps tok n.
           (if tok = None
            then Inr \<lparr>AccountAssignments =
                        Some [\<lparr>PrincipalId = Some ''u-1'', PrincipalType = Some ''USER''\<rparr>,
                              \<lparr>PrincipalId = Some ''g-1'', PrincipalType = Some ''GROUP''\<rparr>,
                              \<lparr>PrincipalId = None, PrincipalType = Some ''USER''\<rparr>],
                      AssignmentsNextToken = Some ''page-2''\<rparr>
            else Inr \<lparr>AccountAssignments =
                        Some [\<lparr>PrincipalId = Some ''u-2'', PrincipalType = Some ''USER''\<rparr>,
                              \<lparr>PrincipalId = Some ''g-1'', PrincipalType = Some ''GROUP''\<rparr>],
                      AssignmentsNextToken = None\<rparr>,
            Suc n))\<rparr>"

definition exampleStore :: "nat IdentitystoreClient" where
  "exampleStore =
     \<lparr>describeUser =
        (\<lambda>sid uid n.
           (if uid = ''u-1'' then Inr \<lparr>UserName = Some ''alice''\<rparr>
            else if uid = ''u-2'' then Inr \<lparr>UserName = Some ''bob''\<rparr>
            else if uid = ''u-3'' then Inr \<lparr>UserName = Some ''carol''\<rparr>
            else Inl notFound, Suc n)),
      describeGroup =
        (\<lambda>sid gid n.
           (if gid = ''g-1'' then Inr \<lparr>DisplayName = Some ''Devs''\<rparr> else Inl notFound, Suc n)),
      listGroupMemberships =
        (\<lambda>sid gid tok n.
           (if gid \<noteq> ''g-1'' then Inl notFound
            else if tok = None
            then Inr \<lparr>GroupMemberships = Some [\<lparr>MemberId_UserId = Some ''u-2''\<rparr>],
                      MembershipsNextToken = Some ''members-2''\<rparr>
            else Inr \<lparr>GroupMemberships =
                        Some [\<lparr>MemberId_UserId = Some ''u-3''\<rparr>, \<lparr>MemberId_UserId = None\<rparr>],
                      MembershipsNextToken = None\<rparr>,
            Suc n))\<rparr>"

text \<open>A reference to a group the identity store no longer has.\<close>

definition groupRef :: AccountAssignment where
  "groupRef = \<lparr>PrincipalId = Some ''g-123'', PrincipalType = Some ''GROUP''\<rparr>"

text \<open>
  An identity store that throttles the first request it receives when that request
  lists memberships, and an SSO service that throttles the first request it receives;
  both answer every later request. \<open>warmWorld\<close> is a run whose caches hold a user, a
  group name and a member list.
\<close>

definition throttleOnceStore :: "nat IdentitystoreClient" where
  "throttleOnceStore =
     \<lparr>describeUser = (\<lambda>sid uid n. (Inr \<lparr>UserName = Some ''alice''\<rparr>, Suc n)),
      describeGroup = (\<lambda>sid gid n. (Inr \<lparr>DisplayName = Some ''Devs''\<rparr>, Suc n)),
      listGroupMemberships =
        (\<lambda>sid gid tok n.
           (if n = 0 then Inl throttled
            else Inr \<lparr>GroupMemberships = Some [\<lparr>MemberId_UserId = Some ''u-1''\<rparr>],
                      MembershipsNextToken = None\<rparr>,
            Suc n))\<rparr>"

definition throttleOnceSso :: "nat SSOAdminClient" where
  "throttleOnceSso =
     \<lparr>listAccountAssignments =
        (\<lambda>arn acct ps tok n.
           (if n = 0 then Inl throttled
            else Inr \<lparr>AccountAssignments =
                        Some [\<lparr>PrincipalId = Some ''u-1'', PrincipalType = Some ''USER''\<rparr>],
                      AssignmentsNextToken = None\<rparr>,
            Suc n))\<rparr>"

definition warmWorld :: "nat world" where
  "warmWorld =
     world0\<lparr>userCache := [''u-1'' \<mapsto> ''alice''], groupCache := [''g-1'' \<mapsto> ''Devs''],
            groupMembersCache := [''g-1'' \<mapsto> [''u-2'', ''u-3'']]\<rparr>"

text \<open>
  SSO services with one page that holds one direct user assignment, or one group
  assignment, and the task of the account Prod with the permission set AdminAccess.
\<close>

definition oneUserSso :: "nat SSOAdminClient" where
  "oneUserSso =
     \<lparr>listAccountAssignments =
        (\<lambda>arn acct ps tok n.
           (Inr \<lparr>AccountAssignments =
                   Some [\<lparr>PrincipalId = Some ''u-1'', PrincipalType = Some ''USER''\<rparr>],
                 AssignmentsNextToken = None\<rparr>, Suc n))\<rparr>"

definition oneGroupSso :: "nat SSOAdminClient" where
  "oneGroupSso =
     \<lparr>listAccountAssignments =
        (\<lambda>arn acct ps tok n.
           (Inr \<lparr>AccountAssignments =
                   Some [\<lparr>PrincipalId = Some ''g-1'', PrincipalType = Some ''GROUP''\<rparr>],
                 AssignmentsNextToken = None\<rparr>, Suc n))\<rparr>"

definition prodAdmin :: Task where
  "prodAdmin = \<lparr>task_accountId = ''111111111111'', task_accountName = ''Prod'',
                task_permissionSetArn = ''arn:ps'', task_permissionSetName = ''AdminAccess''\<rparr>"

text \<open>
  An SSO service whose every listing is one page with the direct user assignment of
  \<^verbatim>\<open>u-1\<close>, and which leaves the request counter to the identity store; and the task of
  the account Dev with the permission set AdminAccess.
\<close>

definition steadySso :: "nat SSOAdminClient" where
  "steadySso =
     \<lparr>listAccountAssignments =
        (\<lambda>arn acct ps tok n.
           (Inr \<lparr>AccountAssignments =
                   Some [\<lparr>PrincipalId = Some ''u-1'', PrincipalType = Some ''USER''\<rparr>],
                 AssignmentsNextToken = None\<rparr>, n))\<rparr>"

definition devAdmin :: Task where
  "devAdmin = \<lparr>task_accountId = ''222222222222'', task_accountName = ''Dev'',
               task_permissionSetArn = ''arn:ps'', task_permissionSetName = ''AdminAccess''\<rparr>"



section \<open>The CSV file can be read back\<close>

lemma chars_distinct [simp]:
  "comma \<noteq> dquote" "dquote \<noteq> comma" "comma \<noteq> newline" "newline \<noteq> comma"
  "dquote \<noteq> newline" "newline \<noteq> dquote"
  by (simp_all add: comma_def dquote_def newline_def)

lemma csvRead_unquoted:
  "comma \<notin> set v \<Longrightarrow> dquote \<notin> set v \<Longrightarrow> set v \<inter> breaks = {} \<Longrightarrow> atFieldEnd breaks rest \<Longrightarrow>
   csvRead breaks InUnquoted field row rows (v @ rest) = fieldEnd breaks (field @ v) row rows rest"
proof (induction v arbitrary: field)
  case Nil
  then show ?case
    by (cases rest) (auto simp: fieldEnd_def atFieldEnd_def)
next
  case (Cons c v)
  then show ?case by auto
qed

lemma csvRead_plain:
  assumes "comma \<notin> set v" "dquote \<notin> set v" "set v \<inter> breaks = {}" "atFieldEnd breaks rest"
    and "dquote \<notin> breaks"
  shows "csvRead breaks FieldStart [] row rows (v @ rest) = fieldEnd breaks v row rows rest"
proof (cases v)
  case Nil
  with assms(4,5) show ?thesis
    by (cases rest) (auto simp: fieldEnd_def atFieldEnd_def)
next
  case (Cons c cs)
  with assms csvRead_unquoted [of cs breaks rest "[c]" row rows] show ?thesis
    by auto
qed

lemma csvRead_quoted:
  "atFieldEnd breaks rest \<Longrightarrow> dquote \<notin> breaks \<Longrightarrow>
   csvRead breaks InQuoted field row rows (doubleQuotes v @ dquote # rest) =
   fieldEnd breaks (field @ v) row rows rest"
proof (induction v arbitrary: field)
  case Nil
  then show ?case
    by (cases rest) (auto simp: fieldEnd_def atFieldEnd_def doubleQuotes_def)
next
  case (Cons c v)
  from Cons.IH [OF Cons.prems, of "field @ [c]"] show ?case
    by (auto simp: doubleQuotes_def)
qed

lemma csvRead_escapeCsv:
  assumes "atFieldEnd breaks rest" and "recordBreaks breaks" and "readable breaks v"
  shows "csvRead breaks FieldStart [] row rows (escapeCsv v @ rest) =
         fieldEnd breaks v row rows rest"
proof (cases "quoted v")
  case True
  then have "escapeCsv v @ rest = dquote # doubleQuotes v @ dquote # rest"
    by (simp add: escapeCsv_def quoted_def)
  with csvRead_quoted [OF assms(1), of "[]" row rows v] assms(2) show ?thesis
    by (simp add: recordBreaks_def)
next
  case False
  then have "escapeCsv v = v" by (simp add: escapeCsv_def quoted_def)
  with False assms(2,3) csvRead_plain [OF _ _ _ assms(1), of v row rows] show ?thesis
    by (simp add: quoted_def readable_def recordBreaks_def)
qed

lemma parseCsv_escapeCsv:
  "recordBreaks breaks \<Longrightarrow> readable breaks v \<Longrightarrow> parseCsv breaks (escapeCsv v) = [[v]]"
  using csvRead_escapeCsv [of breaks "[]" v "[]" "[]"]
  by (simp add: parseCsv_def atFieldEnd_def fieldEnd_def)

lemma csvRead_fields:
  "fs \<noteq> [] \<Longrightarrow> atLineEnd rest \<Longrightarrow> recordBreaks breaks \<Longrightarrow> list_all (readable breaks) fs \<Longrightarrow>
   csvRead breaks FieldStart [] row rows (join [comma] (map escapeCsv fs) @ rest) =
   lineEnd breaks (row @ fs) rows rest"
proof (induction fs arbitrary: row rule: induct_list012)
  case 1
  then show ?case by simp
next
  case (2 f)
  then have "atFieldEnd breaks rest"
    by (auto simp: atLineEnd_def atFieldEnd_def recordBreaks_def split: list.splits)
  from csvRead_escapeCsv [OF this "2"(3), of f row rows] 2 show ?case
    by (auto simp: fieldEnd_def lineEnd_def atLineEnd_def split: list.splits)
next
  case (3 f g fs)
  have e: "atFieldEnd breaks (comma # join [comma] (map escapeCsv (g # fs)) @ rest)"
    by (simp add: atFieldEnd_def)
  from csvRead_escapeCsv [OF e "3.prems"(3), of f row rows] 3 show ?case
    by (simp add: fieldEnd_def)
qed

lemma csvRead_lines:
  "ls \<noteq> [] \<Longrightarrow> \<forall>l \<in> set ls. l \<noteq> [] \<and> list_all (readable breaks) l \<Longrightarrow> recordBreaks breaks \<Longrightarrow>
   csvRead breaks FieldStart [] [] rows
     (join [newline] (map (\<lambda>fs. join [comma] (map escapeCsv fs)) ls)) = rows @ ls"
proof (induction ls arbitrary: rows rule: induct_list012)
  case 1
  then show ?case by simp
next
  case (2 l)
  with csvRead_fields [of l "[]" breaks "[]" rows] show ?case
    by (simp add: atLineEnd_def lineEnd_def)
next
  case (3 l m ls)
  have e: "atLineEnd (newline #
             join [newline] (map (\<lambda>fs. join [comma] (map escapeCsv fs)) (m # ls)))"
    by (simp add: atLineEnd_def)
  from 3 have "l \<noteq> []" "list_all (readable breaks) l" by simp_all
  from csvRead_fields [OF this(1) e "3.prems"(3) this(2), of "[]" rows] 3 show ?case
    by (simp add: lineEnd_def)
qed

lemma csvHeader_fields: "csvHeader = join [comma] (map escapeCsv headerFields)"
  by (simp add: csvHeader_def headerFields_def escapeCsv_def comma_def dquote_def newline_def)

lemma readable_newline [simp]: "readable {newline} v"
  by (auto simp: readable_def quoted_def)

lemma recordBreaks_newline [simp]: "recordBreaks {newline}"
  by (simp add: recordBreaks_def)

lemma parseCsv_csvContent:
  "parseCsv {newline} (csvContent xs) = headerFields # map csvFields xs"
proof -
  have "csvLines xs =
        map (\<lambda>fs. join [comma] (map escapeCsv fs)) (headerFields # map csvFields xs)"
    by (simp add: csvLines_def csvHeader_fields csvLine_def comp_def)
  moreover have "\<forall>l \<in> set (headerFields # map csvFields xs).
                   l \<noteq> [] \<and> list_all (readable {newline}) l"
    by (auto simp: headerFields_def csvFields_def list_all_iff)
  ultimately show ?thesis
    using csvRead_lines [of "headerFields # map csvFields xs" "{newline}" "[]"]
    by (simp add: parseCsv_def csvContent_def)
qed

lemma parseCsv_lines:
  assumes "recordBreaks breaks" and "list_all (readable breaks) headerFields"
    and "\<forall>a \<in> set xs. list_all (readable breaks) (csvFields a)"
  shows "parseCsv breaks (csvContent xs) = headerFields # map csvFields xs"
proof -
  have "csvLines xs =
        map (\<lambda>fs. join [comma] (map escapeCsv fs)) (headerFields # map csvFields xs)"
    by (simp add: csvLines_def csvHeader_fields csvLine_def comp_def)
  moreover from assms(2,3)
  have "\<forall>l \<in> set (headerFields # map csvFields xs). l \<noteq> [] \<and> list_all (readable breaks) l"
    by (auto simp: headerFields_def csvFields_def)
  ultimately show ?thesis
    using csvRead_lines [of "headerFields # map csvFields xs" breaks "[]"] assms(1)
    by (simp add: parseCsv_def csvContent_def)
qed

text \<open>
  C7. \<open>escapeCsv\<close> encloses a value that holds a comma, a double quote or a line feed in
  double quotes, with every double quote of the value doubled, and leaves any other
  value as it is. A reader of delimited text whose record breaks include the line feed
  reads the escaped field back as the value when the value was quoted or holds none of
  the reader's record breaks; with the line feed as the only record break this is every
  value. The lines of the file are the header
  \<^verbatim>\<open>Account Number,Account Name,Username,Permission Set,Group\<close> and then one line per
  assignment. The whole file reads back as the header's five names followed by the five
  fields of each assignment, one record per assignment and in order, when every field
  can be read back by the reader in that sense; with the line feed as the only record
  break this is every file. The row of a direct user assignment has an empty Group
  field.
\<close>

theorem escapeCsv_read_back:
  "escapeCsv v =
     (if comma \<in> set v \<or> dquote \<in> set v \<or> newline \<in> set v
      then [dquote] @ concat (map (\<lambda>c. if c = dquote then [dquote, dquote] else [c]) v) @ [dquote]
      else v) \<and>
   (recordBreaks breaks \<longrightarrow> readable breaks v \<longrightarrow> parseCsv breaks (escapeCsv v) = [[v]]) \<and>
   parseCsv {newline} (escapeCsv v) = [[v]] \<and>
   hd (csvLines allAssignments) = ''Account Number,Account Name,Username,Permission Set,Group'' \<and>
   length (csvLines allAssignments) = Suc (length allAssignments) \<and>
   (recordBreaks breaks \<longrightarrow> list_all (readable breaks) headerFields \<longrightarrow>
    list_all (\<lambda>a. list_all (readable breaks) (csvFields a)) allAssignments \<longrightarrow>
      parseCsv breaks (csvContent allAssignments) = headerFields # map csvFields allAssignments) \<and>
   parseCsv {newline} (csvContent allAssignments) = headerFields # map csvFields allAssignments \<and>
   csvFields ((userRow accountId name psName)\<lparr>accountName := acctName\<rparr>) ! 4 = []"
proof -
  have "parseCsv {newline} (escapeCsv v) = [[v]]"
    by (simp add: parseCsv_escapeCsv)
  moreover have "recordBreaks breaks \<longrightarrow> readable breaks v \<longrightarrow>
      parseCsv breaks (escapeCsv v) = [[v]]"
    by (simp add: parseCsv_escapeCsv)
  moreover have "parseCsv {newline} (csvContent allAssignments) =
                 headerFields # map csvFields allAssignments"
    by (rule parseCsv_csvContent)
  moreover have "recordBreaks breaks \<longrightarrow> list_all (readable breaks) headerFields \<longrightarrow>
    list_all (\<lambda>a. list_all (readable breaks) (csvFields a)) allAssignments \<longrightarrow>
      parseCsv breaks (csvContent allAssignments) = headerFields # map csvFields allAssignments"
    using parseCsv_lines [of breaks allAssignments] by (simp add: list_all_iff)
  moreover have "csvFields ((userRow accountId name psName)\<lparr>accountName := acctName\<rparr>) ! 4 = []"
    by (simp add: csvFields_def userRow_def orElse_def)
  moreover have "escapeCsv v =
     (if comma \<in> set v \<or> dquote \<in> set v \<or> newline \<in> set v
      then [dquote] @ concat (map (\<lambda>c. if c = dquote then [dquote, dquote] else [c]) v) @ [dquote]
      else v)"
    by (simp add: escapeCsv_def doubleQuotes_def)
  moreover have "hd (csvLines allAssignments) =
      ''Account Number,Account Name,Username,Permission Set,Group''"
    by (simp add: csvLines_def csvHeader_def)
  moreover have "length (csvLines allAssignments) = Suc (length allAssignments)"
    by (simp add: csvLines_def)
  ultimately show ?thesis by blast
qed

text \<open>
  A value with a comma, double quotes, a carriage return and a line feed, and a file of
  two assignments, one of them with that value as the account name, read by a reader
  that ends records at the line feed and at the carriage return.
\<close>

theorem escapeCsv_read_back_witness:
  "recordBreaks {newline, carriageReturn} \<and>
   readable {newline, carriageReturn}
     (''Smith, '' @ [dquote] @ ''Bob'' @ [dquote, carriageReturn, newline] @ ''Ops'') \<and>
   escapeCsv (''Smith, '' @ [dquote] @ ''Bob'' @ [dquote, carriageReturn, newline] @ ''Ops'') =
     [dquote] @ ''Smith, '' @ [dquote, dquote] @ ''Bob'' @
     [dquote, dquote, carriageReturn, newline] @ ''Ops'' @ [dquote] \<and>
   parseCsv {newline, carriageReturn}
     (escapeCsv (''Smith, '' @ [dquote] @ ''Bob'' @ [dquote, carriageReturn, newline] @ ''Ops'')) =
     [[''Smith, '' @ [dquote] @ ''Bob'' @ [dquote, carriageReturn, newline] @ ''Ops'']] \<and>
   list_all (readable {newline, carriageReturn}) headerFields \<and>
   list_all (\<lambda>a. list_all (readable {newline, carriageReturn}) (csvFields a))
     [(userRow ''111111111111'' ''alice'' ''AdminAccess'')\<lparr>accountName := ''Prod''\<rparr>,
      (groupRow ''222222222222'' ''bob'' ''AdminAccess'' ''Devs'')
        \<lparr>accountName :=
           ''Smith, '' @ [dquote] @ ''Bob'' @ [dquote, carriageReturn, newline] @ ''Ops''\<rparr>] \<and>
   parseCsv {newline, carriageReturn}
     (csvContent [(userRow ''111111111111'' ''alice'' ''AdminAccess'')\<lparr>accountName := ''Prod''\<rparr>,
                  (groupRow ''222222222222'' ''bob'' ''AdminAccess'' ''Devs'')
                    \<lparr>accountName :=
                       ''Smith, '' @ [dquote] @ ''Bob'' @ [dquote, carriageReturn, newline] @ ''Ops''\<rparr>]) =
     [headerFields,
      [''111111111111'', ''Prod'', ''alice'', ''AdminAccess'', []],
      [''222222222222'',
       ''Smith, '' @ [dquote] @ ''Bob'' @ [dquote, carriageReturn, newline] @ ''Ops'',
       ''bob'', ''AdminAccess'', ''Devs'']]"
proof -
  let ?v = "''Smith, '' @ [dquote] @ ''Bob'' @ [dquote, carriageReturn, newline] @ ''Ops''"
  let ?xs = "[(userRow ''111111111111'' ''alice'' ''AdminAccess'')\<lparr>accountName := ''Prod''\<rparr>,
              (groupRow ''222222222222'' ''bob'' ''AdminAccess'' ''Devs'')\<lparr>accountName := ?v\<rparr>]"
  have b: "recordBreaks {newline, carriageReturn}"
    by (simp add: recordBreaks_def comma_def dquote_def newline_def carriageReturn_def)
  have c: "readable {newline, carriageReturn} ?v"
    by (simp add: readable_def quoted_def comma_def)
  have h: "list_all (readable {newline, carriageReturn}) headerFields"
    by (simp add: headerFields_def readable_def newline_def carriageReturn_def)
  have x: "list_all (\<lambda>a. list_all (readable {newline, carriageReturn}) (csvFields a)) ?xs"
    by (simp add: csvFields_def userRow_def groupRow_def orElse_def readable_def quoted_def
        comma_def newline_def carriageReturn_def)
  note t = escapeCsv_read_back [of ?v "{newline, carriageReturn}" ?xs]
  from t b c have r: "parseCsv {newline, carriageReturn} (escapeCsv ?v) = [[?v]]" by blast
  from t b h x
  have "parseCsv {newline, carriageReturn} (csvContent ?xs) = headerFields # map csvFields ?xs"
    by blast
  then have f: "parseCsv {newline, carriageReturn} (csvContent ?xs) =
     [headerFields,
      [''111111111111'', ''Prod'', ''alice'', ''AdminAccess'', []],
      [''222222222222'', ?v, ''bob'', ''AdminAccess'', ''Devs'']]"
    by (simp add: csvFields_def userRow_def groupRow_def orElse_def)
  have e: "escapeCsv ?v =
     [dquote] @ ''Smith, '' @ [dquote, dquote] @ ''Bob'' @
     [dquote, dquote, carriageReturn, newline] @ ''Ops'' @ [dquote]"
    by (simp add: escapeCsv_def doubleQuotes_def comma_def dquote_def newline_def
        carriageReturn_def)
  from b c e r h x f show ?thesis by blast
qed

text \<open>
  The carriage return is not among the characters that make \<open>escapeCsv\<close> quote a value.
  The value \<^verbatim>\<open>a\<close>, carriage return, \<^verbatim>\<open>b\<close> holds no comma, double quote or line feed and is
  written as it is. A reader that ends records at the line feed and at the carriage
  return reads the escaped field as two records, not as the value; and the file of the
  one assignment whose user name is that value reads as the header and two records, not
  as the header and one record with the assignment's five fields.
\<close>

theorem escapeCsv_carriage_return_counterexample:
  "recordBreaks {newline, carriageReturn} \<and>
   escapeCsv (''a'' @ [carriageReturn] @ ''b'') = ''a'' @ [carriageReturn] @ ''b'' \<and>
   parseCsv {newline, carriageReturn} (escapeCsv (''a'' @ [carriageReturn] @ ''b'')) =
     [[''a''], [''b'']] \<and>
   parseCsv {newline, carriageReturn} (escapeCsv (''a'' @ [carriageReturn] @ ''b'')) \<noteq>
     [[''a'' @ [carriageReturn] @ ''b'']] \<and>
   parseCsv {newline, carriageReturn}
     (csvContent [(userRow ''111111111111'' (''a'' @ [carriageReturn] @ ''b'') ''AdminAccess'')
                    \<lparr>accountName := ''Prod''\<rparr>]) =
     [headerFields, [''111111111111'', ''Prod'', ''a''], [''b'', ''AdminAccess'', []]] \<and>
   length (parseCsv {newline, carriageReturn}
     (csvContent [(userRow ''111111111111'' (''a'' @ [carriageReturn] @ ''b'') ''AdminAccess'')
                    \<lparr>accountName := ''Prod''\<rparr>])) = 3"
proof -
  have b: "recordBreaks {newline, carriageReturn}"
    by (simp add: recordBreaks_def comma_def dquote_def newline_def carriageReturn_def)
  have e: "escapeCsv (''a'' @ [carriageReturn] @ ''b'') = ''a'' @ [carriageReturn] @ ''b''"
    by (simp add: escapeCsv_def comma_def dquote_def newline_def carriageReturn_def)
  have p: "parseCsv {newline, carriageReturn} (escapeCsv (''a'' @ [carriageReturn] @ ''b'')) =
     [[''a''], [''b'']]"
    by (simp add: escapeCsv_def parseCsv_def comma_def dquote_def newline_def carriageReturn_def)
  have f: "parseCsv {newline, carriageReturn}
     (csvContent [(userRow ''111111111111'' (''a'' @ [carriageReturn] @ ''b'') ''AdminAccess'')
                    \<lparr>accountName := ''Prod''\<rparr>]) =
     [headerFields, [''111111111111'', ''Prod'', ''a''], [''b'', ''AdminAccess'', []]]"
    by (simp add: csvContent_def csvLines_def csvLine_def csvFields_def csvHeader_def
        headerFields_def userRow_def orElse_def escapeCsv_def parseCsv_def
        comma_def dquote_def newline_def carriageReturn_def)
  from b e p f show ?thesis by simp
qed

section \<open>The order of the aggregated rows\<close>

lemma update_absent: "k \<notin> fst ` set m \<Longrightarrow> AList.update k v m = m @ [(k, v)]"
  by (induction m) auto

lemma map_entry_last:
  "k \<notin> fst ` set m \<Longrightarrow> AList.map_entry k f (m @ [(k, v)]) = m @ [(k, f v)]"
  by (induction m) auto

lemma map_of_absent: "k \<notin> fst ` set m \<Longrightarrow> map_of m k = None"
  by (simp add: map_of_eq_None_iff)

lemma groupStep_new:
  "task_accountId task \<notin> fst ` set m \<Longrightarrow>
   groupStep m (task, rows) = m @ [(task_accountId task, rows)]"
  by (simp add: groupStep_def map_of_absent update_absent map_entry_last)

lemma groupStep_last:
  "task_accountId task \<notin> fst ` set m \<Longrightarrow>
   groupStep (m @ [(task_accountId task, old)]) (task, rows) =
   m @ [(task_accountId task, old @ rows)]"
  by (simp add: groupStep_def map_entry_last)

lemma foldl_groupStep_last:
  "k \<notin> fst ` set m \<Longrightarrow> \<forall>task \<in> set tasks. task_accountId task = k \<Longrightarrow>
   foldl groupStep (m @ [(k, old)]) (map (\<lambda>task. (task, produced task)) tasks) =
   m @ [(k, old @ concat (map produced tasks))]"
proof (induction tasks arbitrary: old)
  case Nil
  then show ?case by simp
next
  case (Cons task tasks)
  then have k: "task_accountId task = k" by simp
  from Cons.prems(1) k groupStep_last [of task m old "produced task"]
  have "groupStep (m @ [(k, old)]) (task, produced task) = m @ [(k, old @ produced task)]"
    by simp
  with Cons.IH [of "old @ produced task"] Cons.prems show ?case
    by simp
qed

lemma foldl_groupStep_block:
  assumes "k \<notin> fst ` set m" "\<forall>task \<in> set tasks. task_accountId task = k"
  shows "foldl groupStep m (map (\<lambda>task. (task, produced task)) tasks) =
         (if tasks = [] then m else m @ [(k, concat (map produced tasks))])"
proof (cases tasks)
  case Nil
  then show ?thesis by simp
next
  case (Cons task rest)
  with assms have k: "task_accountId task = k"
    and r: "\<forall>task \<in> set rest. task_accountId task = k"
    by simp_all
  from assms(1) k groupStep_new [of task m "produced task"]
  have "groupStep m (task, produced task) = m @ [(k, produced task)]" by simp
  with foldl_groupStep_last [OF assms(1) r, of "produced task" produced] Cons show ?thesis
    by simp
qed

lemma allTasks_Cons:
  "allTasks (account # accounts) ps = accountTasks account ps @ allTasks accounts ps"
  by (cases account) (simp add: allTasks_def accountTasks_def)

lemma accountTasks_id:
  "\<forall>task \<in> set (accountTasks account ps). task_accountId task = fst account"
  by (auto simp: accountTasks_def)

lemma disjoint_step:
  "a \<notin> C \<Longrightarrow> B \<inter> C = {} \<Longrightarrow> A \<subseteq> insert a B \<Longrightarrow> A \<inter> C = {}"
  by auto

lemma foldl_groupStep_accounts:
  "distinct (map fst accounts) \<Longrightarrow> fst ` set m \<inter> fst ` set accounts = {} \<Longrightarrow>
   flattenAccounts
     (foldl groupStep m (map (\<lambda>task. (task, produced task)) (allTasks accounts ps))) =
   flattenAccounts m @ concat (map produced (allTasks accounts ps))"
proof (induction accounts arbitrary: m)
  case Nil
  then show ?case by (simp add: allTasks_def)
next
  case (Cons account accounts)
  let ?block = "accountTasks account ps"
  let ?m1 = "foldl groupStep m (map (\<lambda>task. (task, produced task)) ?block)"
  from Cons.prems have absent: "fst account \<notin> fst ` set m" by auto
  have m1: "?m1 = (if ?block = [] then m else m @ [(fst account, concat (map produced ?block))])"
    using foldl_groupStep_block [OF absent accountTasks_id] .
  then have keys: "fst ` set ?m1 \<subseteq> insert (fst account) (fst ` set m)"
    by (auto split: if_splits)
  from Cons.prems have "fst account \<notin> fst ` set accounts" by auto
  moreover from Cons.prems have "fst ` set m \<inter> fst ` set accounts = {}" by auto
  ultimately have disj: "fst ` set ?m1 \<inter> fst ` set accounts = {}"
    using keys by (rule disjoint_step)
  from Cons.prems have "distinct (map fst accounts)" by simp
  from Cons.IH [OF this disj] have
    "flattenAccounts
       (foldl groupStep ?m1 (map (\<lambda>task. (task, produced task)) (allTasks accounts ps))) =
     flattenAccounts ?m1 @ concat (map produced (allTasks accounts ps))" .
  moreover have "flattenAccounts ?m1 = flattenAccounts m @ concat (map produced ?block)"
    unfolding m1 by (simp add: flattenAccounts_def)
  ultimately show ?case
    by (simp add: allTasks_Cons)
qed

text \<open>
  \<^verbatim>\<open>Promise.all\<close> hands over the values in the order of the promises, whatever the order
  in which they were fulfilled.
\<close>

lemma settled_values:
  "j < length vals \<Longrightarrow>
   length (foldl (\<lambda>vals (index, v). vals[index := Some v]) vals
             (settledIn finished results)) = length vals \<and>
   foldl (\<lambda>vals (index, v). vals[index := Some v]) vals (settledIn finished results) ! j =
     (if j \<in> set finished then Some (results ! j) else vals ! j)"
proof (induction finished arbitrary: vals)
  case Nil
  then show ?case by (simp add: settledIn_def)
next
  case (Cons i finished)
  from Cons.prems have "j < length (vals[i := Some (results ! i)])" by simp
  from Cons.IH [OF this] Cons.prems show ?case
    by (auto simp: settledIn_def nth_list_update)
qed

lemma promiseAll_settled:
  assumes "set finished = {..<length results}"
  shows "promiseAll (length results) (settledIn finished results) = Some results"
proof -
  let ?vals = "foldl (\<lambda>vals (index, v). vals[index := Some v])
                   (replicate (length results) None) (settledIn finished results)"
  have len: "length ?vals = length results"
  proof (cases results)
    case Nil
    with assms have "finished = []" by simp
    with Nil show ?thesis by (simp add: settledIn_def)
  next
    case (Cons r rs)
    then have "0 < length (replicate (length results) (None :: 'a option))" by simp
    from settled_values [OF this, of finished results] show ?thesis by simp
  qed
  have nth: "?vals ! j = Some (results ! j)" if "j < length results" for j
  proof -
    from that have "j < length (replicate (length results) (None :: 'a option))" by simp
    from settled_values [OF this, of finished results] that assms show ?thesis by simp
  qed
  from len nth have "?vals = map Some results"
    by (intro nth_equalityI) simp_all
  then show ?thesis
    by (simp add: promiseAll_def Let_def list_all_iff comp_def)
qed

text \<open>
  C10, the order. \<^verbatim>\<open>Promise.all\<close> hands over the results in the order of the task array,
  whatever the order in which the tasks finished, so \<open>allTaskResults\<close> is the task array
  with each task's rows beside it. Whatever rows each task produced, grouping the results
  by account and flattening the groups gives the tasks' rows in the order of the task
  array: account by account in the order of the accounts, within an account permission
  set by permission set, within a task in the order the task pushed them, each row
  carrying its task's account name. The accounts come from a \<^verbatim>\<open>Map\<close>, so their ids are
  distinct; \<open>finished\<close> lists the indices of the tasks in the order in which they
  finished, every task being in it.
\<close>

theorem aggregate_task_order:
  assumes "distinct (map fst accounts)"
    and "set finished = {..<length (allTasks accounts allPermissionSets)}"
  shows "promiseAll (length (allTasks accounts allPermissionSets))
           (settledIn finished (map (taskResult produced) (allTasks accounts allPermissionSets))) =
         Some (map (taskResult produced) (allTasks accounts allPermissionSets)) \<and>
         aggregate (map (\<lambda>task. (task, withAccountName task (produced task)))
                      (allTasks accounts allPermissionSets)) =
         concat (map (\<lambda>task. withAccountName task (produced task))
                      (concat (map (\<lambda>account. accountTasks account allPermissionSets) accounts)))"
proof -
  have "allTasks accounts allPermissionSets =
        concat (map (\<lambda>account. accountTasks account allPermissionSets) accounts)"
    by (induction accounts) (simp_all add: allTasks_Cons, simp add: allTasks_def)
  with foldl_groupStep_accounts [OF assms(1),
      of "[]" "\<lambda>task. withAccountName task (produced task)" allPermissionSets]
  have "aggregate (map (\<lambda>task. (task, withAccountName task (produced task)))
                      (allTasks accounts allPermissionSets)) =
         concat (map (\<lambda>task. withAccountName task (produced task))
                      (concat (map (\<lambda>account. accountTasks account allPermissionSets) accounts)))"
    by (simp add: aggregate_def groupByAccount_def flattenAccounts_def)
  moreover from assms(2)
  have "promiseAll (length (allTasks accounts allPermissionSets))
           (settledIn finished (map (taskResult produced) (allTasks accounts allPermissionSets))) =
         Some (map (taskResult produced) (allTasks accounts allPermissionSets))"
    using promiseAll_settled
      [of finished "map (taskResult produced) (allTasks accounts allPermissionSets)"]
    by simp
  ultimately show ?thesis by blast
qed

text \<open>
  Two accounts and two permission sets: four tasks, which finish in the order fourth,
  first, third, second.
\<close>

theorem aggregate_task_order_witness:
  "distinct (map fst [(''111'', ''Prod''), (''222'', ''Dev'')]) \<and>
   set [3, 0, 2, 1] =
     {..<length (allTasks [(''111'', ''Prod''), (''222'', ''Dev'')]
                   [(''arn:1'', ''Admin''), (''arn:2'', ''ReadOnly'')])} \<and>
   map_option (map (task_permissionSetName \<circ> fst))
     (promiseAll 4
        (settledIn [3, 0, 2, 1]
           (map (taskResult (\<lambda>task. [userRow (task_accountId task) ''alice''
                                       (task_permissionSetName task)]))
              (allTasks [(''111'', ''Prod''), (''222'', ''Dev'')]
                 [(''arn:1'', ''Admin''), (''arn:2'', ''ReadOnly'')])))) =
     Some [''Admin'', ''ReadOnly'', ''Admin'', ''ReadOnly''] \<and>
   aggregate
     (map (\<lambda>task. (task, withAccountName task
                     [userRow (task_accountId task) ''alice'' (task_permissionSetName task)]))
        (allTasks [(''111'', ''Prod''), (''222'', ''Dev'')]
           [(''arn:1'', ''Admin''), (''arn:2'', ''ReadOnly'')])) =
   [(userRow ''111'' ''alice'' ''Admin'')\<lparr>accountName := ''Prod''\<rparr>,
    (userRow ''111'' ''alice'' ''ReadOnly'')\<lparr>accountName := ''Prod''\<rparr>,
    (userRow ''222'' ''alice'' ''Admin'')\<lparr>accountName := ''Dev''\<rparr>,
    (userRow ''222'' ''alice'' ''ReadOnly'')\<lparr>accountName := ''Dev''\<rparr>]"
proof -
  let ?accounts = "[(''111'', ''Prod''), (''222'', ''Dev'')]"
  let ?sets = "[(''arn:1'', ''Admin''), (''arn:2'', ''ReadOnly'')]"
  have d: "distinct (map fst ?accounts)"
    by simp
  have n: "length (allTasks ?accounts ?sets) = 4" by (simp add: allTasks_def)
  have f: "set [3, 0, 2, 1] = {..<length (allTasks ?accounts ?sets)}"
    unfolding n by (auto simp: lessThan_def)
  note t = aggregate_task_order [OF d f,
      of "\<lambda>task. [userRow (task_accountId task) ''alice'' (task_permissionSetName task)]"]
  from t have a: "aggregate
     (map (\<lambda>task. (task, withAccountName task
                     [userRow (task_accountId task) ''alice'' (task_permissionSetName task)]))
        (allTasks ?accounts ?sets)) =
   [(userRow ''111'' ''alice'' ''Admin'')\<lparr>accountName := ''Prod''\<rparr>,
    (userRow ''111'' ''alice'' ''ReadOnly'')\<lparr>accountName := ''Prod''\<rparr>,
    (userRow ''222'' ''alice'' ''Admin'')\<lparr>accountName := ''Dev''\<rparr>,
    (userRow ''222'' ''alice'' ''ReadOnly'')\<lparr>accountName := ''Dev''\<rparr>]"
    by (simp add: accountTasks_def withAccountName_def)
  from t have p: "map_option (map (task_permissionSetName \<circ> fst))
     (promiseAll 4
        (settledIn [3, 0, 2, 1]
           (map (taskResult (\<lambda>task. [userRow (task_accountId task) ''alice''
                                       (task_permissionSetName task)]))
              (allTasks ?accounts ?sets)))) =
     Some [''Admin'', ''ReadOnly'', ''Admin'', ''ReadOnly'']"
    unfolding n by (simp add: allTasks_def taskResult_def)
  from d f a p show ?thesis by blast
qed

section \<open>The retry loop\<close>

declare retryLoop.simps [simp del]

declare showNat.simps [simp del]

lemma sleeps_append [simp]: "sleeps (xs @ ys) = sleeps xs @ sleeps ys"
  by (induction xs rule: sleeps.induct) simp_all

lemma sentCalls_append [simp]: "sentCalls (xs @ ys) = sentCalls xs @ sentCalls ys"
  by (induction xs rule: sentCalls.induct) simp_all

lemma retryLoop_done:
  "retries < attempt \<Longrightarrow>
   retryLoop operation operationName retries attempt w =
   (Inl (Error ''Error'' (''Failed after '' @ showInt retries @ '' retries'') None), w)"
  by (simp add: retryLoop.simps)

lemma retryLoop_success:
  "attempt \<le> retries \<Longrightarrow> operation w = (Inr v, w1) \<Longrightarrow>
   retryLoop operation operationName retries attempt w = (Inr v, w1)"
  by (simp add: retryLoop.simps)

lemma retryLoop_throw:
  "attempt \<le> retries \<Longrightarrow> operation w = (Inl e, w1) \<Longrightarrow>
   \<not> isRateLimitError e \<or> attempt = retries \<Longrightarrow>
   retryLoop operation operationName retries attempt w = (Inl e, w1)"
  by (subst retryLoop.simps) auto

lemma retryLoop_retry:
  "attempt < retries \<Longrightarrow> operation w = (Inl e, w1) \<Longrightarrow> isRateLimitError e \<Longrightarrow>
   retryLoop operation operationName retries attempt w =
   retryLoop operation operationName retries (attempt + 1)
     (afterBackoff operationName retries attempt w1)"
  by (subst retryLoop.simps) (simp add: afterBackoff_def Math_random_def Let_def)

lemma retryLoop_step:
  "attempt \<le> retries \<Longrightarrow>
   retryLoop operation operationName retries attempt w =
     (case operation w of
        (Inr v, w1) \<Rightarrow> (Inr v, w1)
      | (Inl e, w1) \<Rightarrow>
          if \<not> isRateLimitError e \<or> attempt = retries then (Inl e, w1)
          else retryLoop operation operationName retries (attempt + 1)
                 (afterBackoff operationName retries attempt w1))"
  by (subst retryLoop.simps)
     (simp add: afterBackoff_def Math_random_def Let_def split: prod.splits sum.splits)

lemma retryLoop_cases:
  assumes "attempt \<le> retries"
  obtains (success) v w1 where "operation w = (Inr v, w1)"
      "retryLoop operation operationName retries attempt w = (Inr v, w1)"
  | (throw) e w1 where "operation w = (Inl e, w1)" "\<not> isRateLimitError e \<or> attempt = retries"
      "retryLoop operation operationName retries attempt w = (Inl e, w1)"
  | (retry) e w1 where "operation w = (Inl e, w1)" "isRateLimitError e" "attempt < retries"
      "retryLoop operation operationName retries attempt w =
       retryLoop operation operationName retries (attempt + 1)
         (afterBackoff operationName retries attempt w1)"
proof (cases "operation w")
  case (Pair res w1)
  show ?thesis
  proof (cases res)
    case (Inr v)
    with Pair assms retryLoop_success show ?thesis using success by metis
  next
    case (Inl e)
    show ?thesis
    proof (cases "\<not> isRateLimitError e \<or> attempt = retries")
      case True
      with Pair Inl assms retryLoop_throw [of attempt retries operation w e w1 operationName]
      show ?thesis using throw by blast
    next
      case False
      with assms have "attempt < retries" "isRateLimitError e" by auto
      with Pair Inl retryLoop_retry [of attempt retries operation w e w1 operationName]
      show ?thesis using retry by blast
    qed
  qed
qed

lemma send_sameCaches: "send handler command w = (outcome, w1) \<Longrightarrow> sameCaches w w1"
  by (auto simp: send_def sameCaches_def split: prod.splits)

lemma send_trace:
  "send handler command w = (outcome, w1) \<Longrightarrow>
   trace w1 = trace w @ [Sent (command outcome)] \<and> drawn w1 = drawn w"
  by (auto simp: send_def split: prod.splits)

lemma afterBackoff_sameCaches: "sameCaches w (afterBackoff operationName retries attempt w)"
  by (simp add: afterBackoff_def sameCaches_def sleep_def logWarning_def Let_def)

lemma afterBackoff_remote [simp]:
  "remote (afterBackoff operationName retries attempt w) = remote w"
  by (simp add: afterBackoff_def sleep_def logWarning_def Let_def)

lemma afterBackoff_drawn [simp]:
  "drawn (afterBackoff operationName retries attempt w) = Suc (drawn w)"
  by (simp add: afterBackoff_def sleep_def logWarning_def Let_def)

lemma afterBackoff_trace:
  "\<exists>new. trace (afterBackoff operationName retries attempt w) = trace w @ new \<and>
         sentCalls new = [] \<and>
         sleeps new = [INITIAL_RETRY_DELAY * 2 ^ nat attempt + random w (drawn w) * 1000]"
  by (simp add: afterBackoff_def sleep_def logWarning_def Let_def)

lemma sameCaches_refl [simp]: "sameCaches w w"
  by (simp add: sameCaches_def)

lemma sameCaches_trans: "sameCaches w w1 \<Longrightarrow> sameCaches w1 w2 \<Longrightarrow> sameCaches w w2"
  by (simp add: sameCaches_def)

lemma retryLoop_sameCaches:
  "retryLoop (send handler command) operationName retries attempt w = (res, w') \<Longrightarrow>
   sameCaches w w'"
proof (induction "nat (retries + 1 - attempt)" arbitrary: attempt w)
  case 0
  then have "retries < attempt" by simp
  with 0 retryLoop_done [of retries attempt "send handler command" operationName w]
  show ?case by simp
next
  case (Suc n)
  then have le: "attempt \<le> retries" by simp
  from le show ?case
  proof (cases rule: retryLoop_cases [where operation = "send handler command" and w = w
        and operationName = operationName])
    case (success v w1)
    with Suc.prems send_sameCaches show ?thesis by fastforce
  next
    case (throw e w1)
    with Suc.prems send_sameCaches show ?thesis by fastforce
  next
    case (retry e w1)
    from Suc.hyps(2) have n: "n = nat (retries + 1 - (attempt + 1))" by simp
    from retry(4) Suc.prems have
      "retryLoop (send handler command) operationName retries (attempt + 1)
         (afterBackoff operationName retries attempt w1) = (res, w')" by simp
    from Suc.hyps(1) [OF n this]
    have "sameCaches (afterBackoff operationName retries attempt w1) w'" .
    with afterBackoff_sameCaches [of w1 operationName retries attempt]
      send_sameCaches [OF retry(1)]
    show ?thesis by (blast intro: sameCaches_trans)
  qed
qed

lemma delays_Suc:
  "delays rnd d a (Suc n) =
   (INITIAL_RETRY_DELAY * 2 ^ a + rnd d * 1000) # delays rnd (Suc d) (Suc a) n"
  by (simp add: delays_def upt_rec [of 0] map_Suc_upt [symmetric] del: upt_Suc)

lemma retryLoop_trace:
  "0 \<le> attempt \<Longrightarrow>
   retryLoop (send handler command) operationName retries attempt w = (res, w') \<Longrightarrow>
   \<exists>new. trace w' = trace w @ new \<and>
         length (sentCalls new) \<le> nat (retries + 1 - attempt) \<and>
         (attempt \<le> retries \<longrightarrow> length (sentCalls new) = Suc (length (sleeps new))) \<and>
         sleeps new = delays (random w) (drawn w) (nat attempt) (length (sleeps new))"
proof (induction "nat (retries + 1 - attempt)" arbitrary: attempt w)
  case 0
  then have "retries < attempt" by simp
  with 0 retryLoop_done [of retries attempt "send handler command" operationName w]
  show ?case by (simp add: delays_def)
next
  case (Suc n)
  then have le: "attempt \<le> retries" by simp
  from le show ?case
  proof (cases rule: retryLoop_cases [where operation = "send handler command" and w = w
        and operationName = operationName])
    case (success v w1)
    with Suc.prems send_trace [OF success(1)] le show ?thesis by (simp add: delays_def)
  next
    case (throw e w1)
    with Suc.prems send_trace [OF throw(1)] le show ?thesis by (simp add: delays_def)
  next
    case (retry e w1)
    let ?w2 = "afterBackoff operationName retries attempt w1"
    from Suc.hyps(2) have n: "n = nat (retries + 1 - (attempt + 1))" by simp
    from Suc.prems have a: "0 \<le> attempt + 1" by simp
    from retry(4) Suc.prems have
      "retryLoop (send handler command) operationName retries (attempt + 1) ?w2 = (res, w')"
      by simp
    from Suc.hyps(1) [OF n a this] obtain new where new:
      "trace w' = trace ?w2 @ new"
      "length (sentCalls new) \<le> nat (retries + 1 - (attempt + 1))"
      "attempt + 1 \<le> retries \<longrightarrow> length (sentCalls new) = Suc (length (sleeps new))"
      "sleeps new = delays (random ?w2) (drawn ?w2) (nat (attempt + 1)) (length (sleeps new))"
      by blast
    from afterBackoff_trace [of operationName retries attempt w1] obtain mid where mid:
      "trace ?w2 = trace w1 @ mid" "sentCalls mid = []"
      "sleeps mid = [INITIAL_RETRY_DELAY * 2 ^ nat attempt + random w1 (drawn w1) * 1000]"
      by blast
    from send_trace [OF retry(1)] have w1: "trace w1 = trace w @ [Sent (command (Inl e))]"
      "drawn w1 = drawn w" by simp_all
    from send_sameCaches [OF retry(1)] have r1: "random w1 = random w"
      by (simp add: sameCaches_def)
    from afterBackoff_sameCaches [of w1 operationName retries attempt] r1
    have r2: "random ?w2 = random w" by (simp add: sameCaches_def)
    let ?new = "[Sent (command (Inl e))] @ mid @ new"
    have t: "trace w' = trace w @ ?new" using new(1) mid(1) w1(1) by simp
    have c: "length (sentCalls ?new) \<le> nat (retries + 1 - attempt)"
      using new(2) mid(2) retry(3) by simp
    have c2: "length (sentCalls ?new) = Suc (length (sleeps ?new))"
      using new(3) mid(2,3) retry(3) by simp
    have nat_eq: "nat (attempt + 1) = Suc (nat attempt)" using Suc.prems(1) by simp
    have s: "sleeps ?new = delays (random w) (drawn w) (nat attempt) (length (sleeps ?new))"
      using new(4) mid(3) r1 r2 w1(2) nat_eq
      by (simp add: delays_Suc)
    from t c c2 s show ?thesis by blast
  qed
qed

section \<open>Attempts and delays of the retry loop\<close>

text \<open>
  C2. Take an operation that is one remote call, and a random source whose draws are in
  \<open>[0, 1)\<close>. Whatever the service answers, a call of \<open>retryWithBackoff\<close> sends the
  request at most \<open>retries + 1\<close> times (six times with the default \<open>MAX_RETRIES\<close>);
  when \<open>retries\<close> is not negative there is one sleep between two requests, and the
  \<open>k\<close>-th sleep (from 0), taken after attempt \<open>k\<close> failed, lasts
  \<open>INITIAL_RETRY_DELAY * 2 ^ k\<close> plus a jitter of 1000 times the \<open>k\<close>-th draw, which is
  in \<open>[0, 1000)\<close>. At any attempt, an error that is no rate-limit error (its name is neither
  \<^verbatim>\<open>TooManyRequestsException\<close> nor \<^verbatim>\<open>ThrottlingException\<close> and its status is not 429) is
  thrown on at once: the loop returns it with the world as the one request left it.
  (How the draws are distributed is a matter of \<^verbatim>\<open>Math.random\<close>; the statement holds
  for every source with draws in the range.)
\<close>

theorem retryWithBackoff_attempts_and_delays:
  assumes "\<forall>n. 0 \<le> random w n \<and> random w n < 1"
    and "retryWithBackoff (send handler command) operationName retries w = (res, w')"
  shows "\<exists>new. trace w' = trace w @ new \<and>
           length (sentCalls new) \<le> nat (retries + 1) \<and>
           (0 \<le> retries \<longrightarrow> length (sentCalls new) = Suc (length (sleeps new))) \<and>
           (\<forall>k < length (sleeps new).
              sleeps new ! k = INITIAL_RETRY_DELAY * 2 ^ k + random w (drawn w + k) * 1000 \<and>
              0 \<le> random w (drawn w + k) * 1000 \<and> random w (drawn w + k) * 1000 < 1000) \<and>
           (\<forall>attempt v e r.
              attempt \<le> retries \<longrightarrow> handler (remote v) = (Inl e, r) \<longrightarrow> \<not> isRateLimitError e \<longrightarrow>
              retryLoop (send handler command) operationName retries attempt v =
                (Inl e, v\<lparr>remote := r, trace := trace v @ [Sent (command (Inl e))]\<rparr>))"
proof -
  from assms(2) have "retryLoop (send handler command) operationName retries 0 w = (res, w')"
    by (simp add: retryWithBackoff_def)
  from retryLoop_trace [OF _ this] obtain new where new:
    "trace w' = trace w @ new"
    "length (sentCalls new) \<le> nat (retries + 1)"
    "0 \<le> retries \<longrightarrow> length (sentCalls new) = Suc (length (sleeps new))"
    "sleeps new = delays (random w) (drawn w) 0 (length (sleeps new))"
    by auto
  have d: "\<forall>k < length (sleeps new).
              sleeps new ! k = INITIAL_RETRY_DELAY * 2 ^ k + random w (drawn w + k) * 1000 \<and>
              0 \<le> random w (drawn w + k) * 1000 \<and> random w (drawn w + k) * 1000 < 1000"
  proof (intro allI impI)
    fix k
    assume k: "k < length (sleeps new)"
    from new(4) have "sleeps new ! k = delays (random w) (drawn w) 0 (length (sleeps new)) ! k"
      by simp
    with k have "sleeps new ! k = INITIAL_RETRY_DELAY * 2 ^ k + random w (drawn w + k) * 1000"
      by (simp add: delays_def)
    moreover from assms(1) have "0 \<le> random w (drawn w + k)" "random w (drawn w + k) < 1"
      by simp_all
    ultimately show "sleeps new ! k = INITIAL_RETRY_DELAY * 2 ^ k + random w (drawn w + k) * 1000 \<and>
              0 \<le> random w (drawn w + k) * 1000 \<and> random w (drawn w + k) * 1000 < 1000"
      by simp
  qed
  have t: "\<forall>attempt v e r.
              attempt \<le> retries \<longrightarrow> handler (remote v) = (Inl e, r) \<longrightarrow> \<not> isRateLimitError e \<longrightarrow>
              retryLoop (send handler command) operationName retries attempt v =
                (Inl e, v\<lparr>remote := r, trace := trace v @ [Sent (command (Inl e))]\<rparr>)"
  proof (intro allI impI)
    fix attempt :: int and v :: "'a world" and e r
    assume a: "attempt \<le> retries" and h: "handler (remote v) = (Inl e, r)"
      and n: "\<not> isRateLimitError e"
    from h have "send handler command v =
                 (Inl e, v\<lparr>remote := r, trace := trace v @ [Sent (command (Inl e))]\<rparr>)"
      by (simp add: send_def)
    with a n show "retryLoop (send handler command) operationName retries attempt v =
                (Inl e, v\<lparr>remote := r, trace := trace v @ [Sent (command (Inl e))]\<rparr>)"
      by (simp add: retryLoop_throw)
  qed
  from new(1,2,3) d t show ?thesis by blast
qed

lemma world0_random: "\<forall>n. 0 \<le> random world0 n \<and> random world0 n < 1"
  by (simp add: world0_def)

lemma throttleTwice_run:
  "fst (retryWithBackoff (send throttleTwice (DescribeUserCommand ''d-1'' ''u-1''))
          ''DescribeUser(u-1...)'' MAX_RETRIES world0) = Inr \<lparr>UserName = Some ''alice''\<rparr> \<and>
   sleeps (trace (snd (retryWithBackoff (send throttleTwice (DescribeUserCommand ''d-1'' ''u-1''))
          ''DescribeUser(u-1...)'' MAX_RETRIES world0))) = [1250, 2250] \<and>
   sentCalls (trace (snd (retryWithBackoff (send throttleTwice (DescribeUserCommand ''d-1'' ''u-1''))
          ''DescribeUser(u-1...)'' MAX_RETRIES world0))) =
     [DescribeUserCommand ''d-1'' ''u-1'' (Inl throttled),
      DescribeUserCommand ''d-1'' ''u-1'' (Inl throttled),
      DescribeUserCommand ''d-1'' ''u-1'' (Inr \<lparr>UserName = Some ''alice''\<rparr>)]"
  by (simp add: retryWithBackoff_def retryLoop_step send_def world0_def throttleTwice_def
      throttled_def isRateLimitError_def MAX_RETRIES_def afterBackoff_def sleep_def
      logWarning_def Let_def INITIAL_RETRY_DELAY_def)

lemma denyAll_run:
  "fst (retryWithBackoff (send denyAll (DescribeUserCommand ''d-1'' ''u-1''))
          ''DescribeUser(u-1...)'' MAX_RETRIES world0) = Inl accessDenied \<and>
   trace (snd (retryWithBackoff (send denyAll (DescribeUserCommand ''d-1'' ''u-1''))
          ''DescribeUser(u-1...)'' MAX_RETRIES world0)) =
     [Sent (DescribeUserCommand ''d-1'' ''u-1'' (Inl accessDenied))]"
  by (simp add: retryWithBackoff_def retryLoop_step send_def world0_def denyAll_def
      accessDenied_def isRateLimitError_def MAX_RETRIES_def)

theorem retryWithBackoff_attempts_and_delays_witness:
  "(\<forall>n. 0 \<le> random world0 n \<and> random world0 n < 1) \<and>
   fst (retryWithBackoff (send throttleTwice (DescribeUserCommand ''d-1'' ''u-1''))
          ''DescribeUser(u-1...)'' MAX_RETRIES world0) = Inr \<lparr>UserName = Some ''alice''\<rparr> \<and>
   sleeps (trace (snd (retryWithBackoff (send throttleTwice (DescribeUserCommand ''d-1'' ''u-1''))
          ''DescribeUser(u-1...)'' MAX_RETRIES world0))) = [1250, 2250] \<and>
   (\<exists>new. trace (snd (retryWithBackoff (send throttleTwice (DescribeUserCommand ''d-1'' ''u-1''))
              ''DescribeUser(u-1...)'' MAX_RETRIES world0)) = trace world0 @ new \<and>
          length (sentCalls new) = 3 \<and> length (sentCalls new) \<le> nat (MAX_RETRIES + 1) \<and>
          length (sentCalls new) = Suc (length (sleeps new)) \<and>
          sleeps new ! 1 = INITIAL_RETRY_DELAY * 2 ^ 1 + random world0 (drawn world0 + 1) * 1000) \<and>
   (0::int) \<le> MAX_RETRIES \<and>
   denyAll (remote world0) = (Inl accessDenied, 1) \<and> \<not> isRateLimitError accessDenied \<and>
   retryLoop (send denyAll (DescribeUserCommand ''d-1'' ''u-1'')) ''DescribeUser(u-1...)''
     MAX_RETRIES 0 world0 =
     (Inl accessDenied,
      world0\<lparr>remote := 1,
             trace := trace world0 @ [Sent (DescribeUserCommand ''d-1'' ''u-1'' (Inl accessDenied))]\<rparr>)"
proof -
  let ?op = "send throttleTwice (DescribeUserCommand ''d-1'' ''u-1'')"
  let ?R = "retryWithBackoff ?op ''DescribeUser(u-1...)'' MAX_RETRIES world0"
  have r: "?R = (fst ?R, snd ?R)" by simp
  from retryWithBackoff_attempts_and_delays [OF world0_random r] obtain new where new:
    "trace (snd ?R) = trace world0 @ new"
    "length (sentCalls new) \<le> nat (MAX_RETRIES + 1)"
    "0 \<le> MAX_RETRIES \<longrightarrow> length (sentCalls new) = Suc (length (sleeps new))"
    "\<forall>k < length (sleeps new).
        sleeps new ! k = INITIAL_RETRY_DELAY * 2 ^ k + random world0 (drawn world0 + k) * 1000 \<and>
        0 \<le> random world0 (drawn world0 + k) * 1000 \<and>
        random world0 (drawn world0 + k) * 1000 < 1000"
    "\<forall>attempt v e r.
        attempt \<le> MAX_RETRIES \<longrightarrow> throttleTwice (remote v) = (Inl e, r) \<longrightarrow>
        \<not> isRateLimitError e \<longrightarrow>
        retryLoop ?op ''DescribeUser(u-1...)'' MAX_RETRIES attempt v =
          (Inl e, v\<lparr>remote := r,
                    trace := trace v @ [Sent (DescribeUserCommand ''d-1'' ''u-1'' (Inl e))]\<rparr>)"
    by blast
  have t0: "trace world0 = []" by (simp add: world0_def)
  from new(1) t0 throttleTwice_run have s: "sleeps new = [1250, 2250]" and c: "length (sentCalls new) = 3"
    by simp_all
  from s have "(1::nat) < length (sleeps new)" by simp
  with new(4) have k1:
    "sleeps new ! 1 = INITIAL_RETRY_DELAY * 2 ^ 1 + random world0 (drawn world0 + 1) * 1000"
    by blast
  from new(3) have c2: "length (sentCalls new) = Suc (length (sleeps new))"
    by (simp add: MAX_RETRIES_def)
  let ?op2 = "send denyAll (DescribeUserCommand ''d-1'' ''u-1'')"
  let ?R2 = "retryWithBackoff ?op2 ''DescribeUser(u-1...)'' MAX_RETRIES world0"
  have r2: "?R2 = (fst ?R2, snd ?R2)" by simp
  have d: "denyAll (remote world0) = (Inl accessDenied, 1)"
    by (simp add: denyAll_def world0_def)
  have nr: "\<not> isRateLimitError accessDenied"
    by (simp add: isRateLimitError_def accessDenied_def)
  have m: "(0::int) \<le> MAX_RETRIES" by (simp add: MAX_RETRIES_def)
  from retryWithBackoff_attempts_and_delays [OF world0_random r2] m d nr
  have "retryLoop ?op2 ''DescribeUser(u-1...)'' MAX_RETRIES 0 world0 =
     (Inl accessDenied,
      world0\<lparr>remote := 1,
             trace := trace world0 @ [Sent (DescribeUserCommand ''d-1'' ''u-1'' (Inl accessDenied))]\<rparr>)"
    by blast
  with world0_random throttleTwice_run new(1,2) c c2 k1 m d nr show ?thesis
    by blast
qed

section \<open>The error after the last attempt\<close>









section \<open>The resolution functions and the caches\<close>

lemma cachesGrow_refl [simp]: "cachesGrow w w"
  by (simp add: cachesGrow_def)

lemma cachesGrow_trans: "cachesGrow w w1 \<Longrightarrow> cachesGrow w1 w2 \<Longrightarrow> cachesGrow w w2"
  by (auto simp: cachesGrow_def intro: map_le_trans)

lemma sameCaches_cachesGrow: "sameCaches w w' \<Longrightarrow> cachesGrow w w'"
  by (simp add: sameCaches_def cachesGrow_def)

lemma retryWithBackoff_sameCaches:
  "retryWithBackoff (send handler command) operationName retries w = (res, w') \<Longrightarrow>
   sameCaches w w'"
  by (simp add: retryWithBackoff_def retryLoop_sameCaches)

lemma getUserName_hit:
  "userCache w userId = Some cached \<Longrightarrow>
   getUserName identityStoreClient identityStoreId userId w = (Inr cached, w)"
  by (simp add: getUserName_def)

lemma getGroupName_hit:
  "groupCache w groupId = Some cached \<Longrightarrow>
   getGroupName identityStoreClient identityStoreId groupId w = (Inr cached, w)"
  by (simp add: getGroupName_def)

lemma getGroupMembers_hit:
  "groupMembersCache w groupId = Some cached \<Longrightarrow>
   getGroupMembers fuel identityStoreClient identityStoreId groupId w = Some (Inr cached, w)"
  by (simp add: getGroupMembers_def)

lemma getUserName_settle_cache:
  "getUserName_settle userId outcome w = (res, w') \<Longrightarrow>
   (\<exists>name. res = Inr name \<and> userCache w' = (userCache w)(userId \<mapsto> name)) \<and>
   groupCache w' = groupCache w \<and> groupMembersCache w' = groupMembersCache w"
  by (auto simp: getUserName_settle_def consoleError_def Let_def split: sum.splits if_splits)

lemma getUserName_miss:
  assumes "userCache w userId = None"
    and "getUserName identityStoreClient identityStoreId userId w = (res, w')"
  shows "\<exists>name. res = Inr name \<and> userCache w' = (userCache w)(userId \<mapsto> name) \<and>
           groupCache w' = groupCache w \<and> groupMembersCache w' = groupMembersCache w"
proof -
  obtain outcome w1 where f:
    "getUserName_fetch identityStoreClient identityStoreId userId w = (outcome, w1)"
    by (cases "getUserName_fetch identityStoreClient identityStoreId userId w")
  then have "sameCaches w w1"
    unfolding getUserName_fetch_def by (rule retryWithBackoff_sameCaches)
  moreover from assms f have "getUserName_settle userId outcome w1 = (res, w')"
    by (simp add: getUserName_def)
  ultimately show ?thesis
    using getUserName_settle_cache [of userId outcome w1 res w']
    by (auto simp: sameCaches_def)
qed

lemma map_le_upd_fresh: "m k = None \<Longrightarrow> m \<subseteq>\<^sub>m m(k \<mapsto> v)"
  by (auto simp: map_le_def)

lemma getUserName_result:
  "getUserName identityStoreClient identityStoreId userId w = (res, w') \<Longrightarrow>
   \<exists>name. res = Inr name \<and> userCache w' userId = Some name \<and> cachesGrow w w'"
proof (cases "userCache w userId")
  case None
  assume "getUserName identityStoreClient identityStoreId userId w = (res, w')"
  from getUserName_miss [OF None this] None show ?thesis
    by (auto simp: cachesGrow_def map_le_upd_fresh)
next
  case (Some cached)
  assume "getUserName identityStoreClient identityStoreId userId w = (res, w')"
  with Some show ?thesis by (simp add: getUserName_hit)
qed

lemma getGroupName_result:
  assumes "getGroupName identityStoreClient identityStoreId groupId w = (res, w')"
  shows "\<exists>name. res = Inr name \<and> groupCache w' groupId = Some name \<and> cachesGrow w w' \<and>
           groupMembersCache w' = groupMembersCache w"
proof (cases "groupCache w groupId")
  case (Some cached)
  with assms show ?thesis by (simp add: getGroupName_hit)
next
  case None
  obtain outcome w1 where f:
    "retryWithBackoff
       (send (describeGroup identityStoreClient identityStoreId groupId)
          (DescribeGroupCommand identityStoreId groupId))
       (''DescribeGroup('' @ take 8 groupId @ ''...)'') MAX_RETRIES w = (outcome, w1)"
    by (cases "retryWithBackoff
       (send (describeGroup identityStoreClient identityStoreId groupId)
          (DescribeGroupCommand identityStoreId groupId))
       (''DescribeGroup('' @ take 8 groupId @ ''...)'') MAX_RETRIES w")
  from retryWithBackoff_sameCaches [OF f] have s: "sameCaches w w1" .
  from assms None f show ?thesis
    using s
    by (cases outcome)
       (auto simp: getGroupName_def Let_def consoleError_def sameCaches_def cachesGrow_def
          map_le_upd_fresh split: if_splits)
qed

section \<open>Lookups that fail\<close>

text \<open>
  C3. When the user is not in the cache and the lookup of line 197 ends with an error
  named \<^verbatim>\<open>ResourceNotFoundException\<close>, \<open>getUserName\<close> does not throw: it returns the text
  \<^verbatim>\<open>[Deleted User: <id>]\<close>, and the only thing it changes after the lookup is the cache
  entry of the id, which holds that text. \<open>getGroupName\<close> does the same with
  \<^verbatim>\<open>[Deleted Group: <id>]\<close>.
\<close>

theorem not_found_becomes_tombstone:
  "(userCache w userId = None \<longrightarrow>
    getUserName_fetch identityStoreClient identityStoreId userId w = (Inl e, w1) \<longrightarrow>
    errorName e = ''ResourceNotFoundException'' \<longrightarrow>
    getUserName identityStoreClient identityStoreId userId w =
      (Inr (''[Deleted User: '' @ userId @ '']''),
       w1\<lparr>userCache := (userCache w1)(userId \<mapsto> ''[Deleted User: '' @ userId @ '']'')\<rparr>)) \<and>
   (groupCache v groupId = None \<longrightarrow>
    retryWithBackoff
      (send (describeGroup identityStoreClient identityStoreId groupId)
         (DescribeGroupCommand identityStoreId groupId))
      (''DescribeGroup('' @ take 8 groupId @ ''...)'') MAX_RETRIES v = (Inl e', v1) \<longrightarrow>
    errorName e' = ''ResourceNotFoundException'' \<longrightarrow>
    getGroupName identityStoreClient identityStoreId groupId v =
      (Inr (''[Deleted Group: '' @ groupId @ '']''),
       v1\<lparr>groupCache := (groupCache v1)(groupId \<mapsto> ''[Deleted Group: '' @ groupId @ '']'')\<rparr>))"
  by (simp add: getUserName_def getUserName_settle_def getGroupName_def deletedUser_def
      deletedGroup_def Let_def)

lemma goneStore_user_fetch:
  "getUserName_fetch goneStore ''d-1'' ''u-1'' world0 =
     (Inl notFound,
      world0\<lparr>remote := 1,
             trace := [Sent (DescribeUserCommand ''d-1'' ''u-1'' (Inl notFound))]\<rparr>)"
  by (simp add: getUserName_fetch_def retryWithBackoff_def retryLoop_step send_def goneStore_def
      world0_def notFound_def isRateLimitError_def MAX_RETRIES_def)

lemma goneStore_group_fetch:
  "retryWithBackoff
      (send (describeGroup goneStore ''d-1'' ''g-123'') (DescribeGroupCommand ''d-1'' ''g-123''))
      (''DescribeGroup('' @ take 8 ''g-123'' @ ''...)'') MAX_RETRIES world0 =
     (Inl notFound,
      world0\<lparr>remote := 1,
             trace := [Sent (DescribeGroupCommand ''d-1'' ''g-123'' (Inl notFound))]\<rparr>)"
  by (simp add: retryWithBackoff_def retryLoop_step send_def goneStore_def
      world0_def notFound_def isRateLimitError_def MAX_RETRIES_def)

theorem not_found_becomes_tombstone_witness:
  "userCache world0 ''u-1'' = None \<and>
   getUserName_fetch goneStore ''d-1'' ''u-1'' world0 =
     (Inl notFound,
      world0\<lparr>remote := 1,
             trace := [Sent (DescribeUserCommand ''d-1'' ''u-1'' (Inl notFound))]\<rparr>) \<and>
   errorName notFound = ''ResourceNotFoundException'' \<and>
   fst (getUserName goneStore ''d-1'' ''u-1'' world0) = Inr ''[Deleted User: u-1]'' \<and>
   groupCache world0 ''g-123'' = None \<and>
   fst (getGroupName goneStore ''d-1'' ''g-123'' world0) = Inr ''[Deleted Group: g-123]''"
proof -
  have c: "userCache world0 ''u-1'' = None" "groupCache world0 ''g-123'' = None"
    by (simp_all add: world0_def)
  have n: "errorName notFound = ''ResourceNotFoundException''"
    by (simp add: notFound_def)
  from not_found_becomes_tombstone [of world0 "''u-1''" goneStore "''d-1''" notFound _ world0
      "''g-123''" notFound]
    c n goneStore_user_fetch goneStore_group_fetch
  show ?thesis by simp
qed

text \<open>
  C4, as the code has it. When the user is not in the cache and the lookup ends with an
  error that is no not-found error (an error the retry loop did not retry, or the
  throttling error left after the last retry), \<open>getUserName\<close> does not throw it: the
  \<^verbatim>\<open>catch\<close> block writes it to \<^verbatim>\<open>console.error\<close>, returns the id itself as the name and
  stores the id in the user cache, so the next resolution of the id returns the id from
  the cache and changes nothing.
\<close>

theorem other_error_returns_raw_id:
  assumes "userCache w userId = None"
    and "getUserName_fetch identityStoreClient identityStoreId userId w = (Inl e, w1)"
    and "errorName e \<noteq> ''ResourceNotFoundException''"
  shows "\<exists>w'. getUserName identityStoreClient identityStoreId userId w = (Inr userId, w') \<and>
           userCache w' userId = Some userId \<and>
           trace w' = trace w1 @ [ConsoleError (''Error fetching user '' @ userId @ '':'') e] \<and>
           getUserName identityStoreClient identityStoreId userId w' = (Inr userId, w')"
  using assms
  by (simp add: getUserName_def getUserName_settle_def consoleError_def Let_def)

lemma deniedStore_user_fetch:
  "getUserName_fetch deniedStore ''d-1'' ''u-1'' world0 =
     (Inl accessDenied,
      world0\<lparr>remote := 1,
             trace := [Sent (DescribeUserCommand ''d-1'' ''u-1'' (Inl accessDenied))]\<rparr>)"
  by (simp add: getUserName_fetch_def retryWithBackoff_def retryLoop_step send_def deniedStore_def
      world0_def accessDenied_def isRateLimitError_def MAX_RETRIES_def)

theorem other_error_returns_raw_id_witness:
  "userCache world0 ''u-1'' = None \<and>
   getUserName_fetch deniedStore ''d-1'' ''u-1'' world0 =
     (Inl accessDenied,
      world0\<lparr>remote := 1,
             trace := [Sent (DescribeUserCommand ''d-1'' ''u-1'' (Inl accessDenied))]\<rparr>) \<and>
   errorName accessDenied \<noteq> ''ResourceNotFoundException'' \<and>
   (\<exists>w'. getUserName deniedStore ''d-1'' ''u-1'' world0 = (Inr ''u-1'', w') \<and>
         userCache w' ''u-1'' = Some ''u-1'' \<and>
         trace w' =
           [Sent (DescribeUserCommand ''d-1'' ''u-1'' (Inl accessDenied)),
            ConsoleError ''Error fetching user u-1:'' accessDenied] \<and>
         getUserName deniedStore ''d-1'' ''u-1'' w' = (Inr ''u-1'', w'))"
proof -
  have c: "userCache world0 ''u-1'' = None"
    by (simp add: world0_def)
  have n: "errorName accessDenied \<noteq> ''ResourceNotFoundException''"
    by (simp add: accessDenied_def)
  from other_error_returns_raw_id [OF c deniedStore_user_fetch n]
    c n deniedStore_user_fetch
  show ?thesis by simp
qed

text \<open>
  C4 as stated fails: the identity store answers \<^verbatim>\<open>DescribeUser\<close> with an access-denied
  error, which is neither a rate-limit nor a not-found error. \<open>getUserName\<close> returns the
  name \<^verbatim>\<open>u-1\<close> instead of the error, the cache holds \<^verbatim>\<open>u-1\<close> for the id, and a second
  resolution sends no second request.
\<close>

theorem user_error_propagates_counterexample:
  "fst (getUserName_fetch deniedStore ''d-1'' ''u-1'' world0) = Inl accessDenied \<and>
   \<not> isRateLimitError accessDenied \<and>
   errorName accessDenied \<noteq> ''ResourceNotFoundException'' \<and>
   fst (getUserName deniedStore ''d-1'' ''u-1'' world0) = Inr ''u-1'' \<and>
   userCache (snd (getUserName deniedStore ''d-1'' ''u-1'' world0)) ''u-1'' = Some ''u-1'' \<and>
   sentCalls (trace (snd (getUserName deniedStore ''d-1'' ''u-1''
                            (snd (getUserName deniedStore ''d-1'' ''u-1'' world0))))) =
     [DescribeUserCommand ''d-1'' ''u-1'' (Inl accessDenied)]"
proof -
  have "userCache world0 ''u-1'' = None"
    by (simp add: world0_def)
  then show ?thesis
    by (simp add: getUserName_def deniedStore_user_fetch getUserName_settle_def
        consoleError_def accessDenied_def isRateLimitError_def Let_def)
qed

section \<open>What the resolution functions leave in the trace\<close>

lemma receivedAssignments_append [simp]:
  "receivedAssignments (xs @ ys) = receivedAssignments xs @ receivedAssignments ys"
  by (simp add: receivedAssignments_def)

lemma receivedAssignments_Nil [simp]: "receivedAssignments [] = []"
  by (simp add: receivedAssignments_def)

lemma receivedAssignments_Cons:
  "receivedAssignments (ev # evs) = receivedAssignments [ev] @ receivedAssignments evs"
  using receivedAssignments_append [of "[ev]" evs] by simp

lemma quiet_refl [simp]: "quiet w w"
  by (simp add: quiet_def)

lemma quiet_trans: "quiet w w1 \<Longrightarrow> quiet w1 w2 \<Longrightarrow> quiet w w2"
  by (auto simp: quiet_def intro: cachesGrow_trans)

lemma quiet_cachesGrow: "quiet w w' \<Longrightarrow> cachesGrow w w'"
  by (simp add: quiet_def)

text \<open>
  The requests of one call of the retry loop: the failed ones, and the one that was
  answered when the call returns a response.
\<close>

lemma retryLoop_calls:
  "retryLoop (send handler command) operationName retries attempt w = (res, w') \<Longrightarrow>
   \<exists>new errs. trace w' = trace w @ new \<and>
     sentCalls new = map (\<lambda>e. command (Inl e)) errs @
                     (case res of Inr v \<Rightarrow> [command (Inr v)] | Inl e \<Rightarrow> [])"
proof (induction "nat (retries + 1 - attempt)" arbitrary: attempt w)
  case 0
  then have "retries < attempt" by simp
  with 0 retryLoop_done [of retries attempt "send handler command" operationName w]
  show ?case by (intro exI [of _ "[]"]) auto
next
  case (Suc n)
  then have le: "attempt \<le> retries" by simp
  from le show ?case
  proof (cases rule: retryLoop_cases [where operation = "send handler command" and w = w
        and operationName = operationName])
    case (success v w1)
    with Suc.prems send_trace [OF success(1)] show ?thesis
      by (intro exI [of _ "[Sent (command (Inr v))]"] exI [of _ "[]"]) auto
  next
    case (throw e w1)
    with Suc.prems send_trace [OF throw(1)] show ?thesis
      by (intro exI [of _ "[Sent (command (Inl e))]"] exI [of _ "[e]"]) auto
  next
    case (retry e w1)
    let ?w2 = "afterBackoff operationName retries attempt w1"
    from Suc.hyps(2) have n: "n = nat (retries + 1 - (attempt + 1))" by simp
    from retry(4) Suc.prems have
      "retryLoop (send handler command) operationName retries (attempt + 1) ?w2 = (res, w')"
      by simp
    from Suc.hyps(1) [OF n this] obtain new errs where new:
      "trace w' = trace ?w2 @ new"
      "sentCalls new = map (\<lambda>e. command (Inl e)) errs @
                     (case res of Inr v \<Rightarrow> [command (Inr v)] | Inl e \<Rightarrow> [])"
      by blast
    from afterBackoff_trace [of operationName retries attempt w1] obtain mid where mid:
      "trace ?w2 = trace w1 @ mid" "sentCalls mid = []"
      by blast
    from send_trace [OF retry(1)] have w1: "trace w1 = trace w @ [Sent (command (Inl e))]"
      by simp
    let ?new = "[Sent (command (Inl e))] @ mid @ new"
    have "trace w' = trace w @ ?new" using new(1) mid(1) w1 by simp
    moreover have "sentCalls ?new = map (\<lambda>e. command (Inl e)) (e # errs) @
                     (case res of Inr v \<Rightarrow> [command (Inr v)] | Inl e \<Rightarrow> [])"
      using new(2) mid(2) by simp
    ultimately show ?thesis by blast
  qed
qed

lemma retryWithBackoff_received:
  assumes "retryWithBackoff (send handler command) operationName retries w = (res, w')"
    and "\<And>e. refsOfCall (command (Inl e)) = []"
  shows "sameCaches w w' \<and>
         (\<exists>new. trace w' = trace w @ new \<and>
            receivedAssignments new =
              (case res of Inr v \<Rightarrow> refsOfCall (command (Inr v)) | Inl e \<Rightarrow> []))"
proof -
  from assms(1) have r: "retryLoop (send handler command) operationName retries 0 w = (res, w')"
    by (simp add: retryWithBackoff_def)
  from retryLoop_calls [OF r] obtain new errs where new:
    "trace w' = trace w @ new"
    "sentCalls new = map (\<lambda>e. command (Inl e)) errs @
                     (case res of Inr v \<Rightarrow> [command (Inr v)] | Inl e \<Rightarrow> [])"
    by blast
  have "concat (map refsOfCall (map (\<lambda>e. command (Inl e)) errs)) = []"
    by (induction errs) (simp_all add: assms(2))
  with new(2) have "receivedAssignments new =
              (case res of Inr v \<Rightarrow> refsOfCall (command (Inr v)) | Inl e \<Rightarrow> [])"
    by (cases res) (simp_all add: receivedAssignments_def)
  with new(1) retryLoop_sameCaches [OF r] show ?thesis by blast
qed

lemma getUserName_quiet:
  assumes "getUserName identityStoreClient identityStoreId userId w = (res, w')"
  shows "quiet w w'"
proof (cases "userCache w userId")
  case (Some cached)
  with assms show ?thesis by (simp add: getUserName_hit)
next
  case None
  obtain outcome w1 where f:
    "getUserName_fetch identityStoreClient identityStoreId userId w = (outcome, w1)"
    by (cases "getUserName_fetch identityStoreClient identityStoreId userId w")
  from retryWithBackoff_received [OF f [unfolded getUserName_fetch_def]]
  obtain new where new: "trace w1 = trace w @ new" "receivedAssignments new = []"
    by (cases outcome) auto
  from assms None f have s: "getUserName_settle userId outcome w1 = (res, w')"
    by (simp add: getUserName_def)
  then have "\<exists>more. trace w' = trace w1 @ more \<and> sentCalls more = []"
    by (auto simp: getUserName_settle_def consoleError_def Let_def split: sum.splits if_splits)
  then obtain more where more: "trace w' = trace w1 @ more" "sentCalls more = []" by blast
  from more(2) have "receivedAssignments more = []" by (simp add: receivedAssignments_def)
  with new more(1) have "trace w' = trace w @ (new @ more) \<and> receivedAssignments (new @ more) = []"
    by simp
  with getUserName_result [OF assms] show ?thesis
    unfolding quiet_def by blast
qed

lemma getGroupName_quiet:
  assumes "getGroupName identityStoreClient identityStoreId groupId w = (res, w')"
  shows "quiet w w'"
proof (cases "groupCache w groupId")
  case (Some cached)
  with assms show ?thesis by (simp add: getGroupName_hit)
next
  case None
  let ?R = "retryWithBackoff
       (send (describeGroup identityStoreClient identityStoreId groupId)
          (DescribeGroupCommand identityStoreId groupId))
       (''DescribeGroup('' @ take 8 groupId @ ''...)'') MAX_RETRIES w"
  obtain outcome w1 where f: "?R = (outcome, w1)"
    by (cases ?R)
  from retryWithBackoff_received [OF f]
  obtain new where new: "trace w1 = trace w @ new" "receivedAssignments new = []"
    by (cases outcome) auto
  from assms None f have "\<exists>more. trace w' = trace w1 @ more \<and> sentCalls more = []"
    by (cases outcome)
       (auto simp: getGroupName_def consoleError_def Let_def split: if_splits)
  then obtain more where more: "trace w' = trace w1 @ more" "sentCalls more = []" by blast
  from more(2) have "receivedAssignments more = []" by (simp add: receivedAssignments_def)
  with new more(1) have "trace w' = trace w @ (new @ more) \<and> receivedAssignments (new @ more) = []"
    by simp
  with getGroupName_result [OF assms] show ?thesis
    unfolding quiet_def by blast
qed

lemma getGroupMembers_pages_frame:
  "getGroupMembers_pages fuel identityStoreClient identityStoreId groupId members nextToken w =
     Some ((thrown, ms), w1) \<Longrightarrow>
   sameCaches w w1 \<and> (\<exists>new. trace w1 = trace w @ new \<and> receivedAssignments new = [])"
proof (induction fuel arbitrary: members nextToken w)
  case 0
  then show ?case by simp
next
  case (Suc fuel)
  let ?S = "send (listGroupMemberships identityStoreClient identityStoreId groupId nextToken)
             (ListGroupMembershipsCommand identityStoreId groupId nextToken) w"
  obtain outcome v where s: "?S = (outcome, v)" by (cases ?S)
  from send_sameCaches [OF s] have sc: "sameCaches w v" .
  from send_trace [OF s] have tr:
    "trace v = trace w @ [Sent (ListGroupMembershipsCommand identityStoreId groupId nextToken outcome)]"
    by simp
  have r0: "receivedAssignments
       [Sent (ListGroupMembershipsCommand identityStoreId groupId nextToken outcome)] = []"
    by (simp add: receivedAssignments_def)
  show ?case
  proof (cases outcome)
    case (Inl e)
    with Suc.prems s have "w1 = v" by simp
    with sc tr r0 show ?thesis by blast
  next
    case (Inr response)
    show ?thesis
    proof (cases "truthy (MembershipsNextToken response)")
      case False
      with Inr Suc.prems s have "w1 = v" by (simp add: Let_def)
      with sc tr r0 show ?thesis by blast
    next
      case True
      with Inr Suc.prems s have
        "getGroupMembers_pages fuel identityStoreClient identityStoreId groupId
           (members @ memberUserIds (GroupMemberships response))
           (MembershipsNextToken response) v = Some ((thrown, ms), w1)"
        by (simp add: Let_def)
      from Suc.IH [OF this] obtain new where
        "sameCaches v w1" "trace w1 = trace v @ new" "receivedAssignments new = []"
        by blast
      with sc tr r0 have "sameCaches w w1"
        "trace w1 = trace w @
           ([Sent (ListGroupMembershipsCommand identityStoreId groupId nextToken outcome)] @ new)"
        "receivedAssignments
           ([Sent (ListGroupMembershipsCommand identityStoreId groupId nextToken outcome)] @ new) = []"
        by (auto intro: sameCaches_trans simp: receivedAssignments_Cons [of _ new])
      then show ?thesis by blast
    qed
  qed
qed

lemma getGroupMembers_result:
  assumes "getGroupMembers fuel identityStoreClient identityStoreId groupId w = Some (res, w')"
  shows "\<exists>ms. res = Inr ms \<and> groupMembersCache w' groupId = Some ms \<and> quiet w w'"
proof (cases "groupMembersCache w groupId")
  case (Some cached)
  with assms show ?thesis by (simp add: getGroupMembers_hit)
next
  case None
  let ?P = "getGroupMembers_pages fuel identityStoreClient identityStoreId groupId [] None w"
  from assms None obtain thrown ms w1 where p: "?P = Some ((thrown, ms), w1)"
    by (auto simp: getGroupMembers_def split: option.splits)
  from getGroupMembers_pages_frame [OF p] obtain new where new:
    "sameCaches w w1" "trace w1 = trace w @ new" "receivedAssignments new = []"
    by blast
  from assms None p have res: "res = Inr ms"
    and c: "groupMembersCache w' = (groupMembersCache w1)(groupId \<mapsto> ms)"
    and u: "userCache w' = userCache w1" "groupCache w' = groupCache w1"
    and t: "\<exists>more. trace w' = trace w1 @ more \<and> sentCalls more = []"
    by (auto simp: getGroupMembers_def consoleError_def Let_def split: option.splits if_splits)
  from t obtain more where more: "trace w' = trace w1 @ more" "sentCalls more = []" by blast
  from more(2) have "receivedAssignments more = []" by (simp add: receivedAssignments_def)
  with new more(1) have tt: "trace w' = trace w @ (new @ more) \<and> receivedAssignments (new @ more) = []"
    by simp
  from new(1) c u None have "cachesGrow w w'"
    by (simp add: sameCaches_def cachesGrow_def map_le_upd_fresh)
  with tt res c show ?thesis
    unfolding quiet_def by auto
qed

section \<open>The members the service listed, and the member cache\<close>

lemma listed_Nil [simp]: "\<not> listed [] g"
  by (simp add: listed_def)

lemma listedMembers_Nil [simp]: "listedMembers [] g = []"
  by (simp add: listedMembers_def)

lemma listed_append [simp]: "listed (xs @ ys) g \<longleftrightarrow> listed xs g \<or> listed ys g"
  by (simp add: listed_def)

lemma listedMembers_append [simp]:
  "listedMembers (xs @ ys) g = listedMembers xs g @ listedMembers ys g"
  by (simp add: listedMembers_def)

lemma listed_Cons: "listed (ev # evs) g \<longleftrightarrow> listed [ev] g \<or> listed evs g"
  using listed_append [of "[ev]" evs g] by simp

lemma listedMembers_Cons: "listedMembers (ev # evs) g = listedMembers [ev] g @ listedMembers evs g"
  using listedMembers_append [of "[ev]" evs g] by simp

lemma membersOfCall_unlisted: "\<not> listsGroup g c \<Longrightarrow> membersOfCall g c = []"
  by (cases "(g, c)" rule: membersOfCall.cases) simp_all

lemma unlisted_members: "\<not> listed evs g \<Longrightarrow> listedMembers evs g = []"
  by (simp add: listed_def listedMembers_def list_ex_iff membersOfCall_unlisted)

lemma silent_unlisted: "sentCalls evs = [] \<Longrightarrow> \<not> listed evs g"
  by (simp add: listed_def)

lemma memberUserIds_pageMembers: "memberUserIds (GroupMemberships response) = pageMembers response"
proof (cases "GroupMemberships response")
  case None
  then show ?thesis by (simp add: memberUserIds_def pageMembers_def)
next
  case (Some ms)
  have "concat (map (\<lambda>m. case MemberId_UserId m of None \<Rightarrow> []
                         | Some u \<Rightarrow> if u = [] then [] else [u]) ms) =
        filter (\<lambda>u. u \<noteq> []) (List.map_filter MemberId_UserId ms)"
    by (induction ms) (simp_all add: map_filter_simps split: option.splits)
  with Some show ?thesis by (simp add: memberUserIds_def pageMembers_def)
qed

lemma knownMembers_cached: "groupMembersCache w g = Some ms \<Longrightarrow> knownMembers w new g = ms"
  by (simp add: knownMembers_def)

lemma cachesGrow_members:
  "cachesGrow w w' \<Longrightarrow> groupMembersCache w k = Some ms \<Longrightarrow> groupMembersCache w' k = Some ms"
  by (auto simp: cachesGrow_def map_le_def dom_def)

text \<open>
  The invariant holds of a run of no calls, and of two runs in a row when it holds of
  each.
\<close>

lemma tracked_refl [simp]: "tracked w [] w"
  by (auto simp: tracked_def split: option.splits)

lemma tracked_cache:
  "tracked w new w' \<Longrightarrow>
   groupMembersCache w' g =
     (case groupMembersCache w g of
        Some cached \<Rightarrow> Some cached
      | None \<Rightarrow> if listed new g then Some (listedMembers new g) else None)"
  by (simp add: tracked_def)

lemma tracked_unlisted: "tracked w new w' \<Longrightarrow> groupMembersCache w g = Some ms \<Longrightarrow> \<not> listed new g"
  by (simp add: tracked_def)


lemma tracked_cachesGrow: "tracked w new w' \<Longrightarrow> cachesGrow w w'"
  by (simp add: tracked_def)

lemma tracked_trans:
  assumes "tracked w s1 w1" and "tracked w1 s2 w2"
  shows "tracked w (s1 @ s2) w2"
proof -
  have t: "trace w2 = trace w @ (s1 @ s2)"
    using assms by (simp add: tracked_def)
  have g: "cachesGrow w w2"
    using assms by (blast intro: cachesGrow_trans tracked_cachesGrow)
  have u: "\<not> listed (s1 @ s2) k" if c: "groupMembersCache w k \<noteq> None" for k
  proof -
    from c obtain ms where ms: "groupMembersCache w k = Some ms" by auto
    with tracked_cache [OF assms(1), of k] have "groupMembersCache w1 k = Some ms" by simp
    with tracked_unlisted [OF assms(1) ms] tracked_unlisted [OF assms(2)] show ?thesis by simp
  qed
  have v: "groupMembersCache w2 k =
     (case groupMembersCache w k of
        Some cached \<Rightarrow> Some cached
      | None \<Rightarrow> if listed (s1 @ s2) k then Some (listedMembers (s1 @ s2) k) else None)" for k
  proof (cases "groupMembersCache w k")
    case (Some ms)
    with tracked_cache [OF assms(1), of k] have "groupMembersCache w1 k = Some ms" by simp
    with tracked_cache [OF assms(2), of k] Some show ?thesis by simp
  next
    case None
    show ?thesis
    proof (cases "listed s1 k")
      case True
      with None tracked_cache [OF assms(1), of k]
      have c1: "groupMembersCache w1 k = Some (listedMembers s1 k)" by simp
      from tracked_unlisted [OF assms(2) c1] have "\<not> listed s2 k" .
      then have "listedMembers s2 k = []" by (rule unlisted_members)
      with None True c1 tracked_cache [OF assms(2), of k] show ?thesis by simp
    next
      case False
      with None tracked_cache [OF assms(1), of k] have "groupMembersCache w1 k = None" by simp
      with None False tracked_cache [OF assms(2), of k] unlisted_members [OF False]
      show ?thesis by simp
    qed
  qed
  from t g u v show ?thesis unfolding tracked_def by blast
qed

text \<open>
  Calls in a row: the members known for a group in a call that follows another are the
  members known for it in the two calls taken as one. So over a run of calls that began
  with empty caches, the members known for a group are the members the service listed
  for it since the run began; and the members of a group that is cached stay as they
  are, whatever follows.
\<close>

lemma knownMembers_shift:
  assumes "tracked w s1 w1" and "tracked w1 s2 w2"
  shows "knownMembers w (s1 @ s2) g = knownMembers w1 s2 g"
proof (cases "groupMembersCache w g")
  case (Some ms)
  with tracked_cache [OF assms(1), of g] have "groupMembersCache w1 g = Some ms" by simp
  with Some show ?thesis by (simp add: knownMembers_def)
next
  case None
  show ?thesis
  proof (cases "listed s1 g")
    case True
    with None tracked_cache [OF assms(1), of g]
    have c1: "groupMembersCache w1 g = Some (listedMembers s1 g)" by simp
    from tracked_unlisted [OF assms(2) c1] have "listedMembers s2 g = []"
      by (rule unlisted_members)
    with None c1 show ?thesis by (simp add: knownMembers_def)
  next
    case False
    with None tracked_cache [OF assms(1), of g] have "groupMembersCache w1 g = None" by simp
    with None unlisted_members [OF False] show ?thesis by (simp add: knownMembers_def)
  qed
qed

lemma knownMembers_stable:
  assumes "tracked w s1 w1" and "tracked w1 s2 w2" and "groupMembersCache w1 g \<noteq> None"
  shows "knownMembers w (s1 @ s2) g = knownMembers w s1 g"
proof -
  from knownMembers_shift [OF assms(1) tracked_refl, of g]
  have "knownMembers w s1 g = knownMembers w1 [] g" by simp
  moreover from assms(3) have "knownMembers w1 s2 g = knownMembers w1 [] g"
    by (auto simp: knownMembers_def)
  ultimately show ?thesis
    using knownMembers_shift [OF assms(1,2), of g] by simp
qed

lemma tracked_plain:
  assumes "trace w' = trace w @ new" and "cachesGrow w w'"
    and "groupMembersCache w' = groupMembersCache w" and "\<And>g. \<not> listed new g"
  shows "tracked w new w'"
  using assms by (auto simp: tracked_def split: option.splits)

lemma retryWithBackoff_calls:
  assumes "retryWithBackoff (send handler command) operationName retries w = (res, w')"
    and "\<And>e. refsOfCall (command (Inl e)) = []"
    and "\<And>outcome g. \<not> listsGroup g (command outcome)"
  shows "sameCaches w w' \<and>
         (\<exists>new. trace w' = trace w @ new \<and> (\<forall>g. \<not> listed new g) \<and>
            receivedAssignments new =
              (case res of Inr v \<Rightarrow> refsOfCall (command (Inr v)) | Inl e \<Rightarrow> []))"
proof -
  from assms(1) have r: "retryLoop (send handler command) operationName retries 0 w = (res, w')"
    by (simp add: retryWithBackoff_def)
  from retryLoop_calls [OF r] obtain new errs where new:
    "trace w' = trace w @ new"
    "sentCalls new = map (\<lambda>e. command (Inl e)) errs @
                     (case res of Inr v \<Rightarrow> [command (Inr v)] | Inl e \<Rightarrow> [])"
    by blast
  have "concat (map refsOfCall (map (\<lambda>e. command (Inl e)) errs)) = []"
    by (induction errs) (simp_all add: assms(2))
  with new(2) have "receivedAssignments new =
              (case res of Inr v \<Rightarrow> refsOfCall (command (Inr v)) | Inl e \<Rightarrow> [])"
    by (cases res) (simp_all add: receivedAssignments_def)
  moreover from new(2) have "\<forall>g. \<not> listed new g"
    by (cases res) (simp_all add: listed_def list_ex_iff assms(3))
  ultimately show ?thesis
    using new(1) retryLoop_sameCaches [OF r] by blast
qed

text \<open>
  Every call of a resolution function keeps the invariant. \<open>getGroupMembers\<close> lists a
  group only when its members are not cached, and then stores the members of the pages
  that came back, as \<open>pageMembers\<close> reads them from the responses.
\<close>

lemma getUserName_tracked:
  assumes "getUserName identityStoreClient identityStoreId userId w = (res, w')"
  shows "\<exists>new. tracked w new w' \<and> receivedAssignments new = []"
proof (cases "userCache w userId")
  case (Some cached)
  with assms have "w' = w" by (simp add: getUserName_hit)
  then show ?thesis by (intro exI [of _ "[]"]) simp
next
  case None
  obtain outcome w1 where f:
    "getUserName_fetch identityStoreClient identityStoreId userId w = (outcome, w1)"
    by (cases "getUserName_fetch identityStoreClient identityStoreId userId w")
  from retryWithBackoff_calls [OF f [unfolded getUserName_fetch_def]]
  obtain new where new: "sameCaches w w1" "trace w1 = trace w @ new" "\<forall>g. \<not> listed new g"
    "receivedAssignments new = []"
    by (cases outcome) auto
  from assms None f have s: "getUserName_settle userId outcome w1 = (res, w')"
    by (simp add: getUserName_def)
  then have "\<exists>more. trace w' = trace w1 @ more \<and> sentCalls more = []"
    and m: "groupMembersCache w' = groupMembersCache w1"
    by (auto simp: getUserName_settle_def consoleError_def Let_def split: sum.splits if_splits)
  then obtain more where more: "trace w' = trace w1 @ more" "sentCalls more = []" by blast
  from more(2) have r: "receivedAssignments more = []" by (simp add: receivedAssignments_def)
  have "tracked w (new @ more) w'"
  proof (rule tracked_plain)
    show "trace w' = trace w @ (new @ more)" using new(2) more(1) by simp
    show "cachesGrow w w'" using getUserName_result [OF assms] by blast
    show "groupMembersCache w' = groupMembersCache w" using m new(1) by (simp add: sameCaches_def)
    show "\<not> listed (new @ more) g" for g using new(3) silent_unlisted [OF more(2)] by simp
  qed
  moreover have "receivedAssignments (new @ more) = []" using new(4) r by simp
  ultimately show ?thesis by blast
qed

lemma getGroupName_tracked:
  assumes "getGroupName identityStoreClient identityStoreId groupId w = (res, w')"
  shows "\<exists>new. tracked w new w' \<and> receivedAssignments new = []"
proof (cases "groupCache w groupId")
  case (Some cached)
  with assms have "w' = w" by (simp add: getGroupName_hit)
  then show ?thesis by (intro exI [of _ "[]"]) simp
next
  case None
  let ?R = "retryWithBackoff
       (send (describeGroup identityStoreClient identityStoreId groupId)
          (DescribeGroupCommand identityStoreId groupId))
       (''DescribeGroup('' @ take 8 groupId @ ''...)'') MAX_RETRIES w"
  obtain outcome w1 where f: "?R = (outcome, w1)"
    by (cases ?R)
  from retryWithBackoff_calls [OF f]
  obtain new where new: "sameCaches w w1" "trace w1 = trace w @ new" "\<forall>g. \<not> listed new g"
    "receivedAssignments new = []"
    by (cases outcome) auto
  from assms None f have "\<exists>more. trace w' = trace w1 @ more \<and> sentCalls more = []"
    and m: "groupMembersCache w' = groupMembersCache w1"
    by (cases outcome; auto simp: getGroupName_def consoleError_def Let_def split: if_splits)+
  then obtain more where more: "trace w' = trace w1 @ more" "sentCalls more = []" by blast
  from more(2) have r: "receivedAssignments more = []" by (simp add: receivedAssignments_def)
  have "tracked w (new @ more) w'"
  proof (rule tracked_plain)
    show "trace w' = trace w @ (new @ more)" using new(2) more(1) by simp
    show "cachesGrow w w'" using getGroupName_result [OF assms] by blast
    show "groupMembersCache w' = groupMembersCache w" using m new(1) by (simp add: sameCaches_def)
    show "\<not> listed (new @ more) g" for g using new(3) silent_unlisted [OF more(2)] by simp
  qed
  moreover have "receivedAssignments (new @ more) = []" using new(4) r by simp
  ultimately show ?thesis by blast
qed

lemma getGroupMembers_pages_listing:
  "getGroupMembers_pages fuel identityStoreClient identityStoreId groupId members nextToken w =
     Some ((thrown, ms), w1) \<Longrightarrow>
   \<exists>new. trace w1 = trace w @ new \<and> listed new groupId \<and>
         (\<forall>g. g \<noteq> groupId \<longrightarrow> \<not> listed new g) \<and>
         ms = members @ listedMembers new groupId"
proof (induction fuel arbitrary: members nextToken w)
  case 0
  then show ?case by simp
next
  case (Suc fuel)
  let ?S = "send (listGroupMemberships identityStoreClient identityStoreId groupId nextToken)
             (ListGroupMembershipsCommand identityStoreId groupId nextToken) w"
  let ?ev = "\<lambda>outcome. Sent (ListGroupMembershipsCommand identityStoreId groupId nextToken outcome)"
  obtain outcome v where s: "?S = (outcome, v)" by (cases ?S)
  from send_trace [OF s] have tr: "trace v = trace w @ [?ev outcome]"
    by simp
  have l: "listed [?ev outcome] groupId" "\<And>g. g \<noteq> groupId \<Longrightarrow> \<not> listed [?ev outcome] g"
    by (auto simp: listed_def)
  show ?case
  proof (cases outcome)
    case (Inl e)
    with Suc.prems s have "w1 = v" "ms = members" by simp_all
    moreover from Inl have "listedMembers [?ev outcome] groupId = []"
      by (simp add: listedMembers_def)
    ultimately show ?thesis using tr l by (intro exI [of _ "[?ev outcome]"]) simp
  next
    case (Inr response)
    then have lm: "listedMembers [?ev outcome] groupId = pageMembers response"
      by (simp add: listedMembers_def)
    show ?thesis
    proof (cases "truthy (MembershipsNextToken response)")
      case False
      with Inr Suc.prems s have "w1 = v" "ms = members @ pageMembers response"
        by (simp_all add: Let_def memberUserIds_pageMembers)
      with tr l lm show ?thesis by (intro exI [of _ "[?ev outcome]"]) simp
    next
      case True
      with Inr Suc.prems s have
        "getGroupMembers_pages fuel identityStoreClient identityStoreId groupId
           (members @ pageMembers response)
           (MembershipsNextToken response) v = Some ((thrown, ms), w1)"
        by (simp add: Let_def memberUserIds_pageMembers)
      from Suc.IH [OF this] obtain new where new:
        "trace w1 = trace v @ new" "listed new groupId"
        "\<forall>g. g \<noteq> groupId \<longrightarrow> \<not> listed new g"
        "ms = (members @ pageMembers response) @ listedMembers new groupId"
        by blast
      have "trace w1 = trace w @ ([?ev outcome] @ new)" using tr new(1) by simp
      moreover have "listed ([?ev outcome] @ new) groupId"
        using l(1) by (simp add: listed_Cons [of _ new])
      moreover have "\<forall>g. g \<noteq> groupId \<longrightarrow> \<not> listed ([?ev outcome] @ new) g"
        using l(2) new(3) by (simp add: listed_Cons [of _ new])
      moreover have "ms = members @ listedMembers ([?ev outcome] @ new) groupId"
        using new(4) lm by (simp add: listedMembers_Cons [of _ new])
      ultimately show ?thesis by blast
    qed
  qed
qed

text \<open>
  A listing of memberships stops at the first page that comes back without a token, or
  at the first request that fails: the request it stopped at is its last event.
\<close>

lemma getGroupMembers_pages_end:
  "getGroupMembers_pages fuel identityStoreClient identityStoreId groupId members nextToken w =
     Some ((thrown, ms), w1) \<Longrightarrow>
   (case thrown of
      None \<Rightarrow>
        \<exists>pre tok response.
          trace w1 = pre @ [Sent (ListGroupMembershipsCommand identityStoreId groupId tok
                                    (Inr response))] \<and>
          \<not> truthy (MembershipsNextToken response)
    | Some e \<Rightarrow>
        \<exists>pre tok.
          trace w1 = pre @ [Sent (ListGroupMembershipsCommand identityStoreId groupId tok (Inl e))])"
proof (induction fuel arbitrary: members nextToken w)
  case 0
  then show ?case by simp
next
  case (Suc fuel)
  let ?S = "send (listGroupMemberships identityStoreClient identityStoreId groupId nextToken)
             (ListGroupMembershipsCommand identityStoreId groupId nextToken) w"
  obtain outcome v where s: "?S = (outcome, v)" by (cases ?S)
  from send_trace [OF s] have tr:
    "trace v = trace w @
       [Sent (ListGroupMembershipsCommand identityStoreId groupId nextToken outcome)]"
    by simp
  show ?case
  proof (cases outcome)
    case (Inl e)
    with Suc.prems s have "w1 = v" "thrown = Some e" by simp_all
    with tr Inl show ?thesis by auto
  next
    case (Inr response)
    show ?thesis
    proof (cases "truthy (MembershipsNextToken response)")
      case False
      with Inr Suc.prems s have "w1 = v" "thrown = None" by (simp_all add: Let_def)
      with tr Inr False show ?thesis by auto
    next
      case True
      with Inr Suc.prems s have
        "getGroupMembers_pages fuel identityStoreClient identityStoreId groupId
           (members @ memberUserIds (GroupMemberships response))
           (MembershipsNextToken response) v = Some ((thrown, ms), w1)"
        by (simp add: Let_def)
      from Suc.IH [OF this] show ?thesis .
    qed
  qed
qed

lemma getGroupMembers_tracked:
  assumes "getGroupMembers fuel identityStoreClient identityStoreId groupId w = Some (res, w')"
  shows "\<exists>new ms. tracked w new w' \<and> receivedAssignments new = [] \<and> res = Inr ms \<and>
                  groupMembersCache w' groupId = Some ms"
proof (cases "groupMembersCache w groupId")
  case (Some cached)
  with assms have "w' = w" "res = Inr cached" by (simp_all add: getGroupMembers_hit)
  with Some show ?thesis by - (rule exI [of _ "[]"], rule exI [of _ cached], simp)
next
  case None
  let ?P = "getGroupMembers_pages fuel identityStoreClient identityStoreId groupId [] None w"
  from assms None obtain thrown ms w1 where p: "?P = Some ((thrown, ms), w1)"
    by (auto simp: getGroupMembers_def split: option.splits)
  from getGroupMembers_pages_frame [OF p] have sc: "sameCaches w w1" by blast
  from getGroupMembers_pages_listing [OF p] obtain new where new:
    "trace w1 = trace w @ new" "listed new groupId" "\<forall>g. g \<noteq> groupId \<longrightarrow> \<not> listed new g"
    "ms = listedMembers new groupId"
    by auto
  from assms None p have res: "res = Inr ms"
    and c: "groupMembersCache w' = (groupMembersCache w1)(groupId \<mapsto> ms)"
    and t: "\<exists>more. trace w' = trace w1 @ more \<and> sentCalls more = []"
    by (auto simp: getGroupMembers_def consoleError_def Let_def split: option.splits if_splits)
  from t obtain more where more: "trace w' = trace w1 @ more" "sentCalls more = []" by blast
  from getGroupMembers_result [OF assms] obtain ms' where q:
    "quiet w w'" by blast
  then obtain new' where q': "trace w' = trace w @ new'" "receivedAssignments new' = []"
    by (auto simp: quiet_def)
  with new(1) more(1) have eq: "new' = new @ more" by simp
  from sc have m1: "groupMembersCache w1 = groupMembersCache w" by (simp add: sameCaches_def)
  have nl: "\<not> listed more g" for g using silent_unlisted [OF more(2)] .
  have lm: "listedMembers more g = []" for g using unlisted_members [OF nl] .
  have "tracked w (new @ more) w'"
    unfolding tracked_def
  proof (intro conjI allI impI)
    show "trace w' = trace w @ new @ more" using new(1) more(1) by simp
    show "cachesGrow w w'" using q by (rule quiet_cachesGrow)
    show "\<not> listed (new @ more) g" if "groupMembersCache w g \<noteq> None" for g
    proof -
      from that None have "g \<noteq> groupId" by auto
      with new(3) nl show ?thesis by simp
    qed
    show "groupMembersCache w' g =
       (case groupMembersCache w g of
          Some cached \<Rightarrow> Some cached
        | None \<Rightarrow> if listed (new @ more) g then Some (listedMembers (new @ more) g) else None)"
      for g
    proof (cases "g = groupId")
      case True
      with None c new(2,4) lm show ?thesis by simp
    next
      case False
      with new(3) nl have "\<not> listed (new @ more) g" by simp
      with False c m1 show ?thesis by (simp split: option.splits)
    qed
  qed
  moreover have "receivedAssignments (new @ more) = []" using q'(2) eq by simp
  moreover have "groupMembersCache w' groupId = Some ms" using c by simp
  ultimately show ?thesis using res by blast
qed

section \<open>The rows of one task\<close>

declare processAssignments.simps(2) [simp del]

lemma processAssignments_skip:
  "\<not> validRef a \<Longrightarrow>
   processAssignments limit idc sid acct ps (a # rest) rows w =
   processAssignments limit idc sid acct ps rest rows w"
  by (simp add: processAssignments.simps(2) validRef_def)

lemma processAssignments_other:
  "validRef a \<Longrightarrow> PrincipalType a \<noteq> Some ''USER'' \<Longrightarrow> PrincipalType a \<noteq> Some ''GROUP'' \<Longrightarrow>
   processAssignments limit idc sid acct ps (a # rest) rows w =
   processAssignments limit idc sid acct ps rest rows w"
  by (simp add: processAssignments.simps(2) validRef_def)

lemma processAssignments_user:
  "validRef a \<Longrightarrow> PrincipalType a = Some ''USER'' \<Longrightarrow>
   getUserName idc sid (the (PrincipalId a)) w = (Inr name, w1) \<Longrightarrow>
   processAssignments limit idc sid acct ps (a # rest) rows w =
   processAssignments limit idc sid acct ps rest (rows @ [userRow acct name ps]) w1"
  by (simp add: processAssignments.simps(2) validRef_def)

lemma processAssignments_group:
  "validRef a \<Longrightarrow> PrincipalType a = Some ''GROUP'' \<Longrightarrow>
   getGroupName idc sid (the (PrincipalId a)) w = (Inr grpName, w1) \<Longrightarrow>
   getGroupMembers limit idc sid (the (PrincipalId a)) w1 = Some (Inr members, w2) \<Longrightarrow>
   expandMembers idc sid acct ps grpName members rows w2 = (Inr rows2, w3) \<Longrightarrow>
   processAssignments limit idc sid acct ps (a # rest) rows w =
   processAssignments limit idc sid acct ps rest rows2 w3"
  by (simp add: processAssignments.simps(2) validRef_def)

lemma processAssignments_group_None:
  "validRef a \<Longrightarrow> PrincipalType a = Some ''GROUP'' \<Longrightarrow>
   getGroupName idc sid (the (PrincipalId a)) w = (Inr grpName, w1) \<Longrightarrow>
   getGroupMembers limit idc sid (the (PrincipalId a)) w1 = None \<Longrightarrow>
   processAssignments limit idc sid acct ps (a # rest) rows w = None"
  by (simp add: processAssignments.simps(2) validRef_def)

lemma expandMembers_result:
  "expandMembers idc sid acct ps grpName members rows w = (res, w') \<Longrightarrow>
   quiet w w' \<and> (\<exists>added. res = Inr (rows @ added) \<and> length added = length members)"
proof (induction members arbitrary: rows w)
  case Nil
  then show ?case by simp
next
  case (Cons memberId rest)
  obtain r w1 where g: "getUserName idc sid memberId w = (r, w1)"
    by (cases "getUserName idc sid memberId w")
  from getUserName_result [OF g] obtain name where name: "r = Inr name" by blast
  from getUserName_quiet [OF g] have q: "quiet w w1" .
  from Cons.prems g name have
    "expandMembers idc sid acct ps grpName rest (rows @ [groupRow acct name ps grpName]) w1 =
     (res, w')" by simp
  from Cons.IH [OF this] obtain added where
    "quiet w1 w'" "res = Inr ((rows @ [groupRow acct name ps grpName]) @ added)"
    "length added = length rest" by blast
  with q have "quiet w w'"
    "res = Inr (rows @ (groupRow acct name ps grpName # added))"
    "length (groupRow acct name ps grpName # added) = length (memberId # rest)"
    by (auto intro: quiet_trans)
  then show ?case by blast
qed

lemma expandMembers_tracked:
  "expandMembers idc sid acct ps grpName members rows w = (res, w') \<Longrightarrow>
   \<exists>new added. tracked w new w' \<and> receivedAssignments new = [] \<and>
      res = Inr (rows @ added) \<and> length added = length members"
proof (induction members arbitrary: rows w)
  case Nil
  then have "res = Inr rows" "w' = w" by simp_all
  then show ?case by - (rule exI [of _ "[]"], rule exI [of _ "[]"], simp)
next
  case (Cons memberId rest)
  obtain r w1 where g: "getUserName idc sid memberId w = (r, w1)"
    by (cases "getUserName idc sid memberId w")
  from getUserName_result [OF g] obtain name where name: "r = Inr name" by blast
  from getUserName_tracked [OF g] obtain s1 where s1:
    "tracked w s1 w1" "receivedAssignments s1 = []" by blast
  from Cons.prems g name have
    "expandMembers idc sid acct ps grpName rest (rows @ [groupRow acct name ps grpName]) w1 =
     (res, w')" by simp
  from Cons.IH [OF this] obtain s2 added where ih:
    "tracked w1 s2 w'" "receivedAssignments s2 = []"
    "res = Inr ((rows @ [groupRow acct name ps grpName]) @ added)"
    "length added = length rest" by blast
  from s1(1) ih(1) have "tracked w (s1 @ s2) w'" by (rule tracked_trans)
  moreover from s1(2) ih(2) have "receivedAssignments (s1 @ s2) = []" by simp
  moreover from ih(3) have "res = Inr (rows @ (groupRow acct name ps grpName # added))" by simp
  moreover from ih(4) have
    "length (groupRow acct name ps grpName # added) = length (memberId # rest)" by simp
  ultimately show ?case by blast
qed

lemma rowCount_Nil [simp]: "rowCount w new [] = 0"
  by (simp add: rowCount_def userRefs_def groupRefs_def)

lemma rowCount_append:
  "rowCount w new (xs @ ys) = rowCount w new xs + rowCount w new ys"
  by (simp add: rowCount_def userRefs_def groupRefs_def)

lemma rowCount_Cons:
  "rowCount w new (a # refs) =
     (if validRef a \<and> PrincipalType a = Some ''USER'' then 1
      else if validRef a \<and> PrincipalType a = Some ''GROUP''
      then length (knownMembers w new (the (PrincipalId a)))
      else 0) + rowCount w new refs"
  by (simp add: rowCount_def userRefs_def groupRefs_def)

lemma rowCount_cong:
  assumes "\<And>a. a \<in> set (groupRefs refs) \<Longrightarrow>
             knownMembers w new (the (PrincipalId a)) = knownMembers v step (the (PrincipalId a))"
  shows "rowCount w new refs = rowCount v step refs"
proof -
  from assms have
    "map (\<lambda>a. length (knownMembers w new (the (PrincipalId a)))) (groupRefs refs) =
     map (\<lambda>a. length (knownMembers v step (the (PrincipalId a)))) (groupRefs refs)"
    by simp
  then have "sum_list (map (\<lambda>a. length (knownMembers w new (the (PrincipalId a)))) (groupRefs refs)) =
     sum_list (map (\<lambda>a. length (knownMembers v step (the (PrincipalId a)))) (groupRefs refs))"
    by (rule arg_cong)
  then show ?thesis unfolding rowCount_def by (rule arg_cong)
qed

lemma rowCount_shift:
  "tracked w s1 w1 \<Longrightarrow> tracked w1 s2 w2 \<Longrightarrow> rowCount w (s1 @ s2) refs = rowCount w1 s2 refs"
  by (rule rowCount_cong) (rule knownMembers_shift)

lemma rowCount_stable:
  assumes "tracked w s1 w1" and "tracked w1 s2 w2"
    and "\<forall>a \<in> set (groupRefs refs). groupMembersCache w1 (the (PrincipalId a)) \<noteq> None"
  shows "rowCount w (s1 @ s2) refs = rowCount w s1 refs"
proof (rule rowCount_cong)
  fix a
  assume "a \<in> set (groupRefs refs)"
  with assms(3) have "groupMembersCache w1 (the (PrincipalId a)) \<noteq> None" by blast
  with assms(1,2) show "knownMembers w (s1 @ s2) (the (PrincipalId a)) =
                        knownMembers w s1 (the (PrincipalId a))"
    by (rule knownMembers_stable)
qed

text \<open>
  The loop over the references of one page: it returns rows, one more per user reference
  and one more per known member per group reference, and leaves the members of every
  group it met in the cache.
\<close>

lemma processAssignments_rows:
  "processAssignments limit idc sid acct ps refs rows w = Some (res, w') \<Longrightarrow>
   \<exists>new added. tracked w new w' \<and> receivedAssignments new = [] \<and>
      res = Inr (rows @ added) \<and> length added = rowCount w new refs \<and>
      (\<forall>a \<in> set (groupRefs refs). groupMembersCache w' (the (PrincipalId a)) \<noteq> None)"
proof (induction refs arbitrary: rows w)
  case Nil
  then have "res = Inr rows" "w' = w" by simp_all
  then show ?case
    by - (rule exI [of _ "[]"], rule exI [of _ "[]"], simp add: groupRefs_def)
next
  case (Cons a rest)
  show ?case
  proof (cases "validRef a")
    case False
    with Cons.prems have "processAssignments limit idc sid acct ps rest rows w = Some (res, w')"
      by (simp add: processAssignments_skip)
    from Cons.IH [OF this] obtain new added where ih:
      "tracked w new w'" "receivedAssignments new = []" "res = Inr (rows @ added)"
      "length added = rowCount w new rest"
      "\<forall>a \<in> set (groupRefs rest). groupMembersCache w' (the (PrincipalId a)) \<noteq> None"
      by blast
    from False have "rowCount w new (a # rest) = rowCount w new rest"
      "groupRefs (a # rest) = groupRefs rest"
      by (simp_all add: rowCount_Cons groupRefs_def)
    with ih show ?thesis
      by - (rule exI [of _ new], rule exI [of _ added], simp)
  next
    case True
    show ?thesis
    proof (cases "PrincipalType a = Some ''USER''")
      case user: True
      obtain r w1 where g: "getUserName idc sid (the (PrincipalId a)) w = (r, w1)"
        by (cases "getUserName idc sid (the (PrincipalId a)) w")
      from getUserName_result [OF g] obtain name where name: "r = Inr name" by blast
      from getUserName_tracked [OF g] obtain s1 where s1:
        "tracked w s1 w1" "receivedAssignments s1 = []" by blast
      from Cons.prems processAssignments_user [OF True user g [unfolded name]]
      have "processAssignments limit idc sid acct ps rest (rows @ [userRow acct name ps]) w1 =
            Some (res, w')" by simp
      from Cons.IH [OF this] obtain s2 added where ih:
        "tracked w1 s2 w'" "receivedAssignments s2 = []"
        "res = Inr ((rows @ [userRow acct name ps]) @ added)"
        "length added = rowCount w1 s2 rest"
        "\<forall>a \<in> set (groupRefs rest). groupMembersCache w' (the (PrincipalId a)) \<noteq> None"
        by blast
      from s1(1) ih(1) have t: "tracked w (s1 @ s2) w'" by (rule tracked_trans)
      from s1(2) ih(2) have r: "receivedAssignments (s1 @ s2) = []" by simp
      from ih(3) have e: "res = Inr (rows @ (userRow acct name ps # added))" by simp
      from True user ih(4) rowCount_shift [OF s1(1) ih(1), of rest]
      have c: "length (userRow acct name ps # added) = rowCount w (s1 @ s2) (a # rest)"
        by (simp add: rowCount_Cons)
      from user ih(5) have
        k: "\<forall>a \<in> set (groupRefs (a # rest)). groupMembersCache w' (the (PrincipalId a)) \<noteq> None"
        by (simp add: groupRefs_def)
      from t r e c k show ?thesis by blast
    next
      case notuser: False
      show ?thesis
      proof (cases "PrincipalType a = Some ''GROUP''")
        case False
        with Cons.prems True notuser
        have "processAssignments limit idc sid acct ps rest rows w = Some (res, w')"
          by (simp add: processAssignments_other)
        from Cons.IH [OF this] obtain new added where ih:
          "tracked w new w'" "receivedAssignments new = []" "res = Inr (rows @ added)"
          "length added = rowCount w new rest"
          "\<forall>a \<in> set (groupRefs rest). groupMembersCache w' (the (PrincipalId a)) \<noteq> None"
          by blast
        from False notuser have "rowCount w new (a # rest) = rowCount w new rest"
          "groupRefs (a # rest) = groupRefs rest"
          by (simp_all add: rowCount_Cons groupRefs_def)
        with ih show ?thesis
          by - (rule exI [of _ new], rule exI [of _ added], simp)
      next
        case grp: True
        let ?gid = "the (PrincipalId a)"
        obtain r w1 where g: "getGroupName idc sid ?gid w = (r, w1)"
          by (cases "getGroupName idc sid ?gid w")
        from getGroupName_result [OF g] obtain grpName where gn: "r = Inr grpName" by blast
        from getGroupName_tracked [OF g] obtain s1 where s1:
          "tracked w s1 w1" "receivedAssignments s1 = []" by blast
        show ?thesis
        proof (cases "getGroupMembers limit idc sid ?gid w1")
          case None
          from processAssignments_group_None [OF True grp g [unfolded gn] None] Cons.prems
          show ?thesis by simp
        next
          case (Some m)
          obtain mr w2 where m: "m = (mr, w2)" by (cases m)
          from getGroupMembers_tracked [OF Some [unfolded m]] obtain s2 members where mem:
            "tracked w1 s2 w2" "receivedAssignments s2 = []" "mr = Inr members"
            "groupMembersCache w2 ?gid = Some members"
            by blast
          obtain er w3 where e: "expandMembers idc sid acct ps grpName members rows w2 = (er, w3)"
            by (cases "expandMembers idc sid acct ps grpName members rows w2")
          from expandMembers_tracked [OF e] obtain s3 added1 where ex:
            "tracked w2 s3 w3" "receivedAssignments s3 = []" "er = Inr (rows @ added1)"
            "length added1 = length members"
            by blast
          from Cons.prems
            processAssignments_group [OF True grp g [unfolded gn] Some [unfolded m mem(3)]
              e [unfolded ex(3)]]
          have "processAssignments limit idc sid acct ps rest (rows @ added1) w3 = Some (res, w')"
            by simp
          from Cons.IH [OF this] obtain s4 added where ih:
            "tracked w3 s4 w'" "receivedAssignments s4 = []"
            "res = Inr ((rows @ added1) @ added)"
            "length added = rowCount w3 s4 rest"
            "\<forall>a \<in> set (groupRefs rest). groupMembersCache w' (the (PrincipalId a)) \<noteq> None"
            by blast
          from s1(1) mem(1) have t12: "tracked w (s1 @ s2) w2" by (rule tracked_trans)
          from ex(1) ih(1) have t34: "tracked w2 (s3 @ s4) w'" by (rule tracked_trans)
          from t12 ex(1) have t123: "tracked w ((s1 @ s2) @ s3) w3" by (rule tracked_trans)
          from t123 ih(1) have t: "tracked w (((s1 @ s2) @ s3) @ s4) w'" by (rule tracked_trans)
          from s1(2) mem(2) ex(2) ih(2) have rc: "receivedAssignments (((s1 @ s2) @ s3) @ s4) = []"
            by simp
          from ih(3) have eq: "res = Inr (rows @ (added1 @ added))" by simp
          from knownMembers_shift [OF t12 t34, of ?gid] mem(4)
          have km: "knownMembers w (((s1 @ s2) @ s3) @ s4) ?gid = members"
            by (simp add: knownMembers_cached)
          from rowCount_shift [OF t123 ih(1), of rest]
          have rs: "rowCount w (((s1 @ s2) @ s3) @ s4) rest = rowCount w3 s4 rest" .
          from True grp notuser km rs ih(4) ex(4)
          have c: "length (added1 @ added) = rowCount w (((s1 @ s2) @ s3) @ s4) (a # rest)"
            by (simp add: rowCount_Cons)
          from cachesGrow_members [OF tracked_cachesGrow [OF t34] mem(4)]
          have "groupMembersCache w' ?gid \<noteq> None" by simp
          with ih(5) have
            k: "\<forall>a \<in> set (groupRefs (a # rest)). groupMembersCache w' (the (PrincipalId a)) \<noteq> None"
            by (simp add: groupRefs_def)
          from t rc eq c k show ?thesis by blast
        qed
      qed
    qed
  qed
qed

lemma page_rows:
  assumes "(case AccountAssignments response of
              None \<Rightarrow> Some (Inr rows, w1)
            | Some refs \<Rightarrow> processAssignments limit idc sid acct ps refs rows w1) = Some (pr, w2)"
  shows "\<exists>new added. tracked w1 new w2 \<and> receivedAssignments new = [] \<and>
      pr = Inr (rows @ added) \<and> length added = rowCount w1 new (pageRefs response) \<and>
      (\<forall>a \<in> set (groupRefs (pageRefs response)).
         groupMembersCache w2 (the (PrincipalId a)) \<noteq> None)"
proof (cases "AccountAssignments response")
  case None
  with assms have "pr = Inr rows" "w2 = w1" by simp_all
  with None show ?thesis
    by - (rule exI [of _ "[]"], rule exI [of _ "[]"], simp add: pageRefs_def groupRefs_def)
next
  case (Some refs)
  with assms processAssignments_rows [of limit idc sid acct ps refs rows w1 pr w2]
  show ?thesis by (simp add: pageRefs_def)
qed

declare getAssignments_pages.simps(2) [simp del]

text \<open>
  The loop over the pages of assignments, when it returns: the caches only grew, and
  when it returns rows, the rows added are as many as the references received stand for.
\<close>

lemma getAssignments_pages_result:
  "getAssignments_pages fuel limit sso idc arn sid acct psArn ps rows tok w = Some (res, w') \<Longrightarrow>
   cachesGrow w w' \<and>
   (\<exists>new. tracked w new w' \<and>
      (\<forall>rows'. res = Inr rows' \<longrightarrow>
         (\<exists>added. rows' = rows @ added \<and>
                  length added = rowCount w new (receivedAssignments new))))"
proof (induction fuel arbitrary: rows tok w)
  case 0
  then show ?case by simp
next
  case (Suc fuel)
  let ?cmd = "ListAccountAssignmentsCommand arn acct psArn tok"
  let ?R = "retryWithBackoff (send (listAccountAssignments sso arn acct psArn tok) ?cmd)
              (''ListAccountAssignments('' @ acct @ '')'') MAX_RETRIES w"
  obtain out w1 where r: "?R = (out, w1)" by (cases ?R)
  have "\<And>e. refsOfCall (?cmd (Inl e)) = []" by simp
  moreover have "\<And>outcome g. \<not> listsGroup g (?cmd outcome)" by simp
  ultimately obtain new1 where n1:
    "sameCaches w w1" "trace w1 = trace w @ new1" "\<forall>g. \<not> listed new1 g"
    "receivedAssignments new1 = (case out of Inr v \<Rightarrow> refsOfCall (?cmd (Inr v)) | Inl e \<Rightarrow> [])"
    using retryWithBackoff_calls [OF r] by blast
  from n1(1) have g1: "cachesGrow w w1" by (rule sameCaches_cachesGrow)
  from n1(1) have "groupMembersCache w1 = groupMembersCache w" by (simp add: sameCaches_def)
  with n1(2) g1 n1(3) have t1: "tracked w new1 w1" by (intro tracked_plain) simp_all
  show ?case
  proof (cases out)
    case (Inl e)
    with Suc.prems r have "res = Inl e" "w' = w1"
      by (simp_all add: getAssignments_pages.simps(2))
    with g1 t1 show ?thesis by auto
  next
    case (Inr response)
    with n1(4) have rec1: "receivedAssignments new1 = pageRefs response"
      by (simp add: pageRefs_def)
    let ?P = "(case AccountAssignments response of
                 None \<Rightarrow> Some (Inr rows, w1)
               | Some refs \<Rightarrow> processAssignments limit idc sid acct ps refs rows w1)"
    show ?thesis
    proof (cases ?P)
      case None
      with Suc.prems r Inr show ?thesis
        by (simp add: getAssignments_pages.simps(2))
    next
      case (Some p)
      obtain pr w2 where p: "p = (pr, w2)" by (cases p)
      from page_rows [OF Some [unfolded p]] obtain new2 added1 where pg:
        "tracked w1 new2 w2" "receivedAssignments new2 = []" "pr = Inr (rows @ added1)"
        "length added1 = rowCount w1 new2 (pageRefs response)"
        "\<forall>a \<in> set (groupRefs (pageRefs response)).
           groupMembersCache w2 (the (PrincipalId a)) \<noteq> None"
        by blast
      from t1 pg(1) have t12: "tracked w (new1 @ new2) w2" by (rule tracked_trans)
      show ?thesis
      proof (cases "truthy (AssignmentsNextToken response)")
        case False
        with Suc.prems r Inr Some p pg(3) have e: "res = Inr (rows @ added1)" "w' = w2"
          by (simp_all add: getAssignments_pages.simps(2))
        have "receivedAssignments (new1 @ new2) = pageRefs response"
          using rec1 pg(2) by simp
        moreover have "rowCount w (new1 @ new2) (pageRefs response) =
                       rowCount w1 new2 (pageRefs response)"
          using t1 pg(1) by (rule rowCount_shift)
        ultimately have "\<forall>rows'. res = Inr rows' \<longrightarrow>
           (\<exists>added. rows' = rows @ added \<and>
              length added = rowCount w (new1 @ new2) (receivedAssignments (new1 @ new2)))"
          using e(1) pg(4) by simp
        with t12 e(2) tracked_cachesGrow [OF t12] show ?thesis by blast
      next
        case True
        with Suc.prems r Inr Some p pg(3) have
          "getAssignments_pages fuel limit sso idc arn sid acct psArn ps (rows @ added1)
             (AssignmentsNextToken response) w2 = Some (res, w')"
          by (simp add: getAssignments_pages.simps(2))
        from Suc.IH [OF this] obtain new3 where ih:
          "tracked w2 new3 w'"
          "\<forall>rows'. res = Inr rows' \<longrightarrow>
             (\<exists>added. rows' = (rows @ added1) @ added \<and>
                  length added = rowCount w2 new3 (receivedAssignments new3))"
          by blast
        let ?new = "(new1 @ new2) @ new3"
        from t12 ih(1) have t: "tracked w ?new w'" by (rule tracked_trans)
        from pg(1) ih(1) have t23: "tracked w1 (new2 @ new3) w'" by (rule tracked_trans)
        have rec: "receivedAssignments ?new = pageRefs response @ receivedAssignments new3"
          using rec1 pg(2) by simp
        have "rowCount w (new1 @ (new2 @ new3)) (pageRefs response) =
              rowCount w1 (new2 @ new3) (pageRefs response)"
          using t1 t23 by (rule rowCount_shift)
        also have "\<dots> = rowCount w1 new2 (pageRefs response)"
          using pg(1) ih(1) pg(5) by (rule rowCount_stable)
        finally have c1: "rowCount w ?new (pageRefs response) = length added1"
          using pg(4) by simp
        have c3: "rowCount w ?new (receivedAssignments new3) =
                  rowCount w2 new3 (receivedAssignments new3)"
          using t12 ih(1) by (rule rowCount_shift)
        have "\<forall>rows'. res = Inr rows' \<longrightarrow>
             (\<exists>added. rows' = rows @ added \<and>
                  length added = rowCount w ?new (receivedAssignments ?new))"
        proof (intro allI impI)
          fix rows'
          assume "res = Inr rows'"
          with ih(2) obtain added where a: "rows' = (rows @ added1) @ added"
            "length added = rowCount w2 new3 (receivedAssignments new3)" by blast
          have "rows' = rows @ (added1 @ added)" using a(1) by simp
          moreover have "length (added1 @ added) = rowCount w ?new (receivedAssignments ?new)"
            unfolding rec using a(2) c1 c3 by (simp add: rowCount_append)
          ultimately show "\<exists>added. rows' = rows @ added \<and>
                  length added = rowCount w ?new (receivedAssignments ?new)" by blast
        qed
        with t tracked_cachesGrow [OF t] show ?thesis by blast
      qed
    qed
  qed
qed










lemma example_run:
  "(case getAssignments (Suc (Suc 0)) exampleSso exampleStore ''arn:sso'' ''d-1'' ''111111111111''
           ''arn:ps'' ''AdminAccess'' world0 of
      Some (Inr rows, w') \<Rightarrow>
        map username rows = [''alice'', ''bob'', ''carol'', ''bob'', ''bob'', ''carol''] \<and>
        map groupName rows = [None, Some ''Devs'', Some ''Devs'', None, Some ''Devs'', Some ''Devs''] \<and>
        groupMembersCache w' ''g-1'' = Some [''u-2'', ''u-3''] \<and>
        length (sentCalls (trace w')) = 8
    | _ \<Rightarrow> False)"
  by (simp add: getAssignments_def getAssignments_pages.simps processAssignments.simps
      getUserName_def getUserName_fetch_def getUserName_settle_def getGroupName_def
      getGroupMembers_def retryWithBackoff_def retryLoop_step send_def world0_def
      exampleSso_def exampleStore_def truthy_def orElse_def memberUserIds_def MAX_RETRIES_def
      Let_def userRow_def groupRow_def)

section \<open>An example run, and a group that is gone\<close>





text \<open>
  C6. Take a reference to a group whose member list is not cached, and let the first
  \<^verbatim>\<open>ListGroupMemberships\<close> request for it fail with \<^verbatim>\<open>ResourceNotFoundException\<close>. The
  group's name has been resolved before the members are asked for, whatever the name is
  (a real one or \<^verbatim>\<open>[Deleted Group: <id>]\<close>). \<open>getGroupMembers\<close> then returns the empty
  list and stores the empty list for the group, the name stays in the group cache, and
  the loop over the references goes on with the rows it had: the reference adds no row.
\<close>

theorem deleted_group_yields_no_rows:
  assumes "validRef a" and "PrincipalType a = Some ''GROUP''"
    and "getGroupName identityStoreClient identityStoreId (the (PrincipalId a)) w =
           (Inr grpName, w1)"
    and "groupMembersCache w1 (the (PrincipalId a)) = None"
    and "listGroupMemberships identityStoreClient identityStoreId (the (PrincipalId a)) None
           (remote w1) = (Inl e, r)"
    and "errorName e = ''ResourceNotFoundException''"
    and "0 < limit"
  shows "\<exists>w2. getGroupMembers limit identityStoreClient identityStoreId (the (PrincipalId a)) w1 =
                Some (Inr [], w2) \<and>
              groupMembersCache w2 (the (PrincipalId a)) = Some [] \<and>
              groupCache w2 (the (PrincipalId a)) = Some grpName \<and>
              processAssignments limit identityStoreClient identityStoreId accountId psName
                (a # rest) rows w =
              processAssignments limit identityStoreClient identityStoreId accountId psName
                rest rows w2"
proof -
  let ?gid = "the (PrincipalId a)"
  let ?w2 = "w1\<lparr>remote := r,
                 trace := trace w1 @
                   [Sent (ListGroupMembershipsCommand identityStoreId ?gid None (Inl e))],
                 groupMembersCache := (groupMembersCache w1)(?gid \<mapsto> [])\<rparr>"
  from assms(7) obtain fuel where f: "limit = Suc fuel" by (cases limit) auto
  from assms(5) have p:
    "getGroupMembers_pages limit identityStoreClient identityStoreId ?gid [] None w1 =
     Some ((Some e, []),
           w1\<lparr>remote := r,
               trace := trace w1 @
                 [Sent (ListGroupMembershipsCommand identityStoreId ?gid None (Inl e))]\<rparr>)"
    by (simp add: f send_def)
  with assms(4,6) have m:
    "getGroupMembers limit identityStoreClient identityStoreId ?gid w1 = Some (Inr [], ?w2)"
    by (simp add: getGroupMembers_def)
  from getGroupName_result [OF assms(3)] have "groupCache w1 ?gid = Some grpName" by simp
  then have c: "groupCache ?w2 ?gid = Some grpName" by simp
  have e: "expandMembers identityStoreClient identityStoreId accountId psName grpName [] rows ?w2
           = (Inr rows, ?w2)" by simp
  from processAssignments_group [OF assms(1,2,3) m e] m c show ?thesis
    by (intro exI [of _ ?w2]) simp
qed

lemma goneStore_group_name:
  "getGroupName goneStore ''d-1'' ''g-123'' world0 =
     (Inr ''[Deleted Group: g-123]'',
      world0\<lparr>remote := 1,
             trace := [Sent (DescribeGroupCommand ''d-1'' ''g-123'' (Inl notFound))],
             groupCache := [''g-123'' \<mapsto> ''[Deleted Group: g-123]'']\<rparr>)"
proof -
  have "groupCache world0 ''g-123'' = None" by (simp add: world0_def)
  moreover have "take 8 ''g-123'' = ''g-123''" by simp
  ultimately show ?thesis
    using goneStore_group_fetch
    by (simp add: getGroupName_def deletedGroup_def notFound_def Let_def world0_def)
qed

theorem deleted_group_yields_no_rows_witness:
  "validRef groupRef \<and> PrincipalType groupRef = Some ''GROUP'' \<and>
   fst (getGroupName goneStore ''d-1'' (the (PrincipalId groupRef)) world0) =
     Inr ''[Deleted Group: g-123]'' \<and>
   groupMembersCache (snd (getGroupName goneStore ''d-1'' (the (PrincipalId groupRef)) world0))
     (the (PrincipalId groupRef)) = None \<and>
   listGroupMemberships goneStore ''d-1'' (the (PrincipalId groupRef)) None
     (remote (snd (getGroupName goneStore ''d-1'' (the (PrincipalId groupRef)) world0))) =
     (Inl notFound, 2) \<and>
   errorName notFound = ''ResourceNotFoundException'' \<and>
   (\<exists>w2. getGroupMembers 1 goneStore ''d-1'' ''g-123''
            (snd (getGroupName goneStore ''d-1'' ''g-123'' world0)) = Some (Inr [], w2) \<and>
         groupMembersCache w2 ''g-123'' = Some [] \<and>
         groupCache w2 ''g-123'' = Some ''[Deleted Group: g-123]'' \<and>
         processAssignments 1 goneStore ''d-1'' ''111111111111'' ''AdminAccess'' [groupRef] []
           world0 = Some (Inr [], w2))"
proof -
  let ?N = "getGroupName goneStore ''d-1'' (the (PrincipalId groupRef)) world0"
  have v: "validRef groupRef" "PrincipalType groupRef = Some ''GROUP''"
    "the (PrincipalId groupRef) = ''g-123''"
    by (simp_all add: groupRef_def validRef_def truthy_def)
  have n: "?N = (Inr ''[Deleted Group: g-123]'', snd ?N)"
    using goneStore_group_name by (simp add: v(3))
  have c: "groupMembersCache (snd ?N) (the (PrincipalId groupRef)) = None"
    using goneStore_group_name by (simp add: v(3) world0_def)
  have l: "listGroupMemberships goneStore ''d-1'' (the (PrincipalId groupRef)) None
             (remote (snd ?N)) = (Inl notFound, 2)"
    using goneStore_group_name by (simp add: v(3) goneStore_def)
  have e: "errorName notFound = ''ResourceNotFoundException''" by (simp add: notFound_def)
  have fstN: "fst ?N = Inr ''[Deleted Group: g-123]''"
    using goneStore_group_name by (simp add: v(3))
  from deleted_group_yields_no_rows [OF v(1,2) n c l e, of 1 "''111111111111''" "''AdminAccess''"
      "[]" "[]"]
  obtain w2 where w2:
    "getGroupMembers 1 goneStore ''d-1'' (the (PrincipalId groupRef)) (snd ?N) = Some (Inr [], w2)"
    "groupMembersCache w2 (the (PrincipalId groupRef)) = Some []"
    "groupCache w2 (the (PrincipalId groupRef)) = Some ''[Deleted Group: g-123]''"
    "processAssignments 1 goneStore ''d-1'' ''111111111111'' ''AdminAccess'' [groupRef] [] world0 =
     processAssignments 1 goneStore ''d-1'' ''111111111111'' ''AdminAccess'' [] [] w2"
    by auto
  from w2 v(1,2) fstN c l e show ?thesis by (auto simp: v(3))
qed

section \<open>Throttled membership pages, and the caches over a run\<close>

text \<open>
  C5 at an input where the code departs from it. \<open>getGroupMembers\<close> sends each page
  request directly (line 281), not through \<open>retryWithBackoff\<close>: when the first
  \<^verbatim>\<open>ListGroupMemberships\<close> request is throttled, there is no second request; the error
  is written to \<^verbatim>\<open>console.error\<close> and the empty list is returned and cached, where the
  same service asked once more (its second request) returns the member \<^verbatim>\<open>u-1\<close>. The page
  requests of \<open>getAssignments\<close> are retried: a throttled first request followed by an
  answer gives the rows an immediate answer gives.
\<close>

theorem getGroupMembers_throttle_not_retried:
  "isRateLimitError throttled \<and>
   getGroupMembers (Suc (Suc 0)) throttleOnceStore ''d-1'' ''g-1'' world0 =
     Some (Inr [],
           world0\<lparr>remote := 1,
                  trace := [Sent (ListGroupMembershipsCommand ''d-1'' ''g-1'' None (Inl throttled)),
                            ConsoleError ''Error fetching group members for g-1:'' throttled],
                  groupMembersCache := [''g-1'' \<mapsto> []]\<rparr>) \<and>
   map_option fst (getGroupMembers (Suc (Suc 0)) throttleOnceStore ''d-1'' ''g-1''
                     (world0\<lparr>remote := 1\<rparr>)) = Some (Inr [''u-1'']) \<and>
   map_option fst (getAssignments (Suc (Suc 0)) throttleOnceSso throttleOnceStore ''arn:sso''
                     ''d-1'' ''111111111111'' ''arn:ps'' ''AdminAccess'' world0) =
     Some (Inr [userRow ''111111111111'' ''alice'' ''AdminAccess'']) \<and>
   map_option fst (getAssignments (Suc (Suc 0)) throttleOnceSso throttleOnceStore ''arn:sso''
                     ''d-1'' ''111111111111'' ''arn:ps'' ''AdminAccess'' (world0\<lparr>remote := 1\<rparr>)) =
     Some (Inr [userRow ''111111111111'' ''alice'' ''AdminAccess''])"
  by (simp add: getAssignments_def getAssignments_pages.simps processAssignments.simps
      getUserName_def getUserName_fetch_def getUserName_settle_def getGroupName_def
      getGroupMembers_def retryWithBackoff_def retryLoop_step send_def world0_def
      throttleOnceSso_def throttleOnceStore_def truthy_def orElse_def memberUserIds_def
      MAX_RETRIES_def Let_def throttled_def isRateLimitError_def consoleError_def
      afterBackoff_def sleep_def logWarning_def)

text \<open>
  C8, for resolutions that do not overlap (each runs from its look into the cache to
  its write before the next one of the same id begins). A resolution of an id that is in
  the cache returns the cached value and leaves the world as it is: no request, no
  write. Every resolution and every \<open>getAssignments\<close> keeps every entry of the three
  caches with its value, and resolving the same id again right after returns the same
  result and changes nothing. In any order of execution, the write at the end of a user
  resolution changes the entry of its own id only and removes none.
\<close>

theorem cache_entries_stable:
  "(userCache w userId = Some name \<longrightarrow>
      getUserName identityStoreClient identityStoreId userId w = (Inr name, w)) \<and>
   (groupCache w groupId = Some grpName \<longrightarrow>
      getGroupName identityStoreClient identityStoreId groupId w = (Inr grpName, w)) \<and>
   (groupMembersCache w groupId = Some members \<longrightarrow>
      getGroupMembers fuel identityStoreClient identityStoreId groupId w = Some (Inr members, w)) \<and>
   (getUserName identityStoreClient identityStoreId userId w = (r1, w1) \<longrightarrow>
      cachesGrow w w1 \<and>
      getUserName identityStoreClient identityStoreId userId w1 = (r1, w1)) \<and>
   (getGroupName identityStoreClient identityStoreId groupId w = (r2, w2) \<longrightarrow>
      cachesGrow w w2 \<and>
      getGroupName identityStoreClient identityStoreId groupId w2 = (r2, w2)) \<and>
   (getGroupMembers fuel identityStoreClient identityStoreId groupId w = Some (r3, w3) \<longrightarrow>
      cachesGrow w w3 \<and>
      getGroupMembers fuel identityStoreClient identityStoreId groupId w3 = Some (r3, w3)) \<and>
   (getAssignments fuel ssoAdminClient identityStoreClient instanceArn identityStoreId accountId
      permissionSetArn psName w = Some (r4, w4) \<longrightarrow> cachesGrow w w4) \<and>
   (\<exists>written. userCache (snd (getUserName_settle userId outcome v)) =
                (userCache v)(userId \<mapsto> written))"
proof -
  have a: "getUserName identityStoreClient identityStoreId userId w = (r1, w1) \<longrightarrow>
      cachesGrow w w1 \<and>
      getUserName identityStoreClient identityStoreId userId w1 = (r1, w1)"
  proof
    assume g: "getUserName identityStoreClient identityStoreId userId w = (r1, w1)"
    from getUserName_result [OF g] obtain n where "r1 = Inr n" "userCache w1 userId = Some n"
      "cachesGrow w w1" by blast
    then show "cachesGrow w w1 \<and>
      getUserName identityStoreClient identityStoreId userId w1 = (r1, w1)"
      by (simp add: getUserName_hit)
  qed
  have b: "getGroupName identityStoreClient identityStoreId groupId w = (r2, w2) \<longrightarrow>
      cachesGrow w w2 \<and>
      getGroupName identityStoreClient identityStoreId groupId w2 = (r2, w2)"
  proof
    assume g: "getGroupName identityStoreClient identityStoreId groupId w = (r2, w2)"
    from getGroupName_result [OF g] obtain n where "r2 = Inr n" "groupCache w2 groupId = Some n"
      "cachesGrow w w2" by blast
    then show "cachesGrow w w2 \<and>
      getGroupName identityStoreClient identityStoreId groupId w2 = (r2, w2)"
      by (simp add: getGroupName_hit)
  qed
  have c: "getGroupMembers fuel identityStoreClient identityStoreId groupId w = Some (r3, w3) \<longrightarrow>
      cachesGrow w w3 \<and>
      getGroupMembers fuel identityStoreClient identityStoreId groupId w3 = Some (r3, w3)"
  proof
    assume g: "getGroupMembers fuel identityStoreClient identityStoreId groupId w = Some (r3, w3)"
    from getGroupMembers_result [OF g] obtain ms where "r3 = Inr ms"
      "groupMembersCache w3 groupId = Some ms" "quiet w w3" by blast
    then show "cachesGrow w w3 \<and>
      getGroupMembers fuel identityStoreClient identityStoreId groupId w3 = Some (r3, w3)"
      by (simp add: getGroupMembers_hit quiet_cachesGrow)
  qed
  have d: "getAssignments fuel ssoAdminClient identityStoreClient instanceArn identityStoreId
      accountId permissionSetArn psName w = Some (r4, w4) \<longrightarrow> cachesGrow w w4"
    using getAssignments_pages_result [of fuel fuel ssoAdminClient identityStoreClient
        instanceArn identityStoreId accountId permissionSetArn psName "[]" None w r4 w4]
    by (simp add: getAssignments_def)
  have e: "\<exists>written. userCache (snd (getUserName_settle userId outcome v)) =
                (userCache v)(userId \<mapsto> written)"
    using getUserName_settle_cache [of userId outcome v
        "fst (getUserName_settle userId outcome v)" "snd (getUserName_settle userId outcome v)"]
    by auto
  from a b c d e show ?thesis
    by (simp add: getUserName_hit getGroupName_hit getGroupMembers_hit)
qed

text \<open>
  C8 as stated fails when two resolutions of one id overlap, as they do when two tasks
  run together: an \<^verbatim>\<open>async\<close> function runs up to its \<^verbatim>\<open>await\<close> and goes on when the
  awaited lookup has settled. Two calls of \<open>getUserName\<close> for \<^verbatim>\<open>u-1\<close> both find the cache
  empty (line 192) and both send their lookup; the first lookup is answered with alice,
  the second fails with an internal error. The first call goes on and writes alice; the
  second goes on after it and writes the raw id over the entry.
\<close>

theorem concurrent_resolution_overwrites_counterexample:
  "userCache world0 ''u-1'' = None \<and>
   (case getUserName_fetch flakyStore ''d-1'' ''u-1'' world0 of
      (outcomeA, w1) \<Rightarrow>
        (case getUserName_fetch flakyStore ''d-1'' ''u-1'' w1 of
           (outcomeB, w2) \<Rightarrow>
             (case getUserName_settle ''u-1'' outcomeA w2 of
                (nameA, w3) \<Rightarrow>
                  (case getUserName_settle ''u-1'' outcomeB w3 of
                     (nameB, w4) \<Rightarrow>
                       userCache w2 ''u-1'' = None \<and>
                       nameA = Inr ''alice'' \<and> userCache w3 ''u-1'' = Some ''alice'' \<and>
                       nameB = Inr ''u-1'' \<and> userCache w4 ''u-1'' = Some ''u-1''))))"
  by (simp add: getUserName_fetch_def retryWithBackoff_def retryLoop_step send_def world0_def
      flakyStore_def internalError_def isRateLimitError_def MAX_RETRIES_def
      getUserName_settle_def orElse_def consoleError_def Let_def)

lemma flakyStore_first:
  "getUserName flakyStore ''d-1'' ''u-1'' world0 =
     (Inr ''alice'',
      world0\<lparr>remote := 1,
             trace := [Sent (DescribeUserCommand ''d-1'' ''u-1'' (Inr \<lparr>UserName = Some ''alice''\<rparr>))],
             userCache := [''u-1'' \<mapsto> ''alice'']\<rparr>)"
  by (simp add: getUserName_def getUserName_fetch_def retryWithBackoff_def retryLoop_step
      send_def world0_def flakyStore_def MAX_RETRIES_def getUserName_settle_def orElse_def
      Let_def)

theorem cache_entries_stable_witness:
  "userCache warmWorld ''u-1'' = Some ''alice'' \<and>
   groupCache warmWorld ''g-1'' = Some ''Devs'' \<and>
   groupMembersCache warmWorld ''g-1'' = Some [''u-2'', ''u-3''] \<and>
   getUserName goneStore ''d-1'' ''u-1'' warmWorld = (Inr ''alice'', warmWorld) \<and>
   getGroupName goneStore ''d-1'' ''g-1'' warmWorld = (Inr ''Devs'', warmWorld) \<and>
   getGroupMembers 1 goneStore ''d-1'' ''g-1'' warmWorld = Some (Inr [''u-2'', ''u-3''], warmWorld) \<and>
   fst (getUserName flakyStore ''d-1'' ''u-1'' world0) = Inr ''alice'' \<and>
   cachesGrow world0 (snd (getUserName flakyStore ''d-1'' ''u-1'' world0)) \<and>
   getUserName flakyStore ''d-1'' ''u-1'' (snd (getUserName flakyStore ''d-1'' ''u-1'' world0)) =
     getUserName flakyStore ''d-1'' ''u-1'' world0 \<and>
   (\<exists>r w'. getAssignments (Suc (Suc 0)) exampleSso exampleStore ''arn:sso'' ''d-1''
              ''111111111111'' ''arn:ps'' ''AdminAccess'' world0 = Some (r, w') \<and>
            cachesGrow world0 w')"
proof -
  have h: "userCache warmWorld ''u-1'' = Some ''alice''"
    "groupCache warmWorld ''g-1'' = Some ''Devs''"
    "groupMembersCache warmWorld ''g-1'' = Some [''u-2'', ''u-3'']"
    by (simp_all add: warmWorld_def world0_def)
  note A = cache_entries_stable [of warmWorld "''u-1''" "''alice''" goneStore "''d-1''"
      "''g-1''" "''Devs''" "[''u-2'', ''u-3'']" 1]
  from A h have hits:
    "getUserName goneStore ''d-1'' ''u-1'' warmWorld = (Inr ''alice'', warmWorld)"
    "getGroupName goneStore ''d-1'' ''g-1'' warmWorld = (Inr ''Devs'', warmWorld)"
    "getGroupMembers 1 goneStore ''d-1'' ''g-1'' warmWorld = Some (Inr [''u-2'', ''u-3''], warmWorld)"
    by blast+
  let ?U = "getUserName flakyStore ''d-1'' ''u-1'' world0"
  have u: "?U = (fst ?U, snd ?U)" by simp
  note B = cache_entries_stable [of world0 "''u-1''" _ flakyStore "''d-1''" _ _ _ _ "fst ?U"
      "snd ?U"]
  from B u have miss: "cachesGrow world0 (snd ?U)"
    "getUserName flakyStore ''d-1'' ''u-1'' (snd ?U) = ?U"
    by (blast, metis)
  from flakyStore_first have f: "fst ?U = Inr ''alice''" by simp
  let ?G = "getAssignments (Suc (Suc 0)) exampleSso exampleStore ''arn:sso'' ''d-1''
              ''111111111111'' ''arn:ps'' ''AdminAccess'' world0"
  have "\<exists>r w'. ?G = Some (r, w')"
  proof (cases ?G)
    case None
    with example_run show ?thesis by simp
  next
    case (Some p)
    then show ?thesis by (cases p) simp
  qed
  then obtain r w' where g: "?G = Some (r, w')" by blast
  note C = cache_entries_stable [where w = world0 and fuel = "Suc (Suc 0)"
      and ssoAdminClient = exampleSso and identityStoreClient = exampleStore
      and instanceArn = "''arn:sso''" and identityStoreId = "''d-1''"
      and accountId = "''111111111111''" and permissionSetArn = "''arn:ps''"
      and psName = "''AdminAccess''" and ?r4.0 = r and ?w4.0 = w']
  from C g have "cachesGrow world0 w'" by blast
  with g have ex: "\<exists>r w'. ?G = Some (r, w') \<and> cachesGrow world0 w'" by blast
  from h hits f miss ex show ?thesis by blast
qed

text \<open>
  C10 as stated fails for the content of the list. Two tasks, of the accounts Prod and
  Dev with the same permission set, each receive the direct user assignment of \<^verbatim>\<open>u-1\<close>;
  the identity store answers the first lookup it receives with alice and fails every
  later one with an internal error. When the tasks run one after the other, the first
  looks \<^verbatim>\<open>u-1\<close> up and the second finds alice in the cache: both rows name alice. When
  they run together, as \<^verbatim>\<open>limit\<close> lets up to ten tasks do, each receives its page and
  looks into the cache (line 192) before the lookup of the other has settled, so each
  sends its own lookup; the first is answered and the second fails, and the row of the
  second task carries the raw id (lines 347-353 push the row with the name
  \<open>getUserName\<close> returned). The two final lists have the same order and differ in
  content.
\<close>

theorem overlapping_tasks_content_counterexample:
  "allTasks [(''111111111111'', ''Prod''), (''222222222222'', ''Dev'')]
     [(''arn:ps'', ''AdminAccess'')] = [prodAdmin, devAdmin] \<and>
   (case runTask (Suc 0) steadySso flakyStore ''arn:sso'' ''d-1'' prodAdmin world0 of
      Some (Inr first, w1) \<Rightarrow>
        (case runTask (Suc 0) steadySso flakyStore ''arn:sso'' ''d-1'' devAdmin w1 of
           Some (Inr second, w2) \<Rightarrow>
             aggregate [first, second] =
               [(userRow ''111111111111'' ''alice'' ''AdminAccess'')\<lparr>accountName := ''Prod''\<rparr>,
                (userRow ''222222222222'' ''alice'' ''AdminAccess'')\<lparr>accountName := ''Dev''\<rparr>]
         | _ \<Rightarrow> False)
    | _ \<Rightarrow> False) \<and>
   (case retryWithBackoff
           (send (listAccountAssignments steadySso ''arn:sso'' ''111111111111'' ''arn:ps'' None)
              (ListAccountAssignmentsCommand ''arn:sso'' ''111111111111'' ''arn:ps'' None))
           ''ListAccountAssignments(111111111111)'' MAX_RETRIES world0 of
      (pageA, v1) \<Rightarrow>
        (case retryWithBackoff
                (send (listAccountAssignments steadySso ''arn:sso'' ''222222222222'' ''arn:ps'' None)
                   (ListAccountAssignmentsCommand ''arn:sso'' ''222222222222'' ''arn:ps'' None))
                ''ListAccountAssignments(222222222222)'' MAX_RETRIES v1 of
           (pageB, v2) \<Rightarrow>
             pageA = Inr \<lparr>AccountAssignments =
                            Some [\<lparr>PrincipalId = Some ''u-1'', PrincipalType = Some ''USER''\<rparr>],
                          AssignmentsNextToken = None\<rparr> \<and>
             pageB = pageA \<and> userCache v2 ''u-1'' = None \<and>
             (case getUserName_fetch flakyStore ''d-1'' ''u-1'' v2 of
                (outcomeA, v3) \<Rightarrow>
                  (case getUserName_fetch flakyStore ''d-1'' ''u-1'' v3 of
                     (outcomeB, v4) \<Rightarrow>
                       (case getUserName_settle ''u-1'' outcomeA v4 of
                          (nameA, v5) \<Rightarrow>
                            (case getUserName_settle ''u-1'' outcomeB v5 of
                               (nameB, v6) \<Rightarrow>
                                 nameA = Inr ''alice'' \<and> nameB = Inr ''u-1'' \<and>
                                 aggregate
                                   [(prodAdmin,
                                     withAccountName prodAdmin
                                       [userRow (task_accountId prodAdmin) ''alice''
                                          (task_permissionSetName prodAdmin)]),
                                    (devAdmin,
                                     withAccountName devAdmin
                                       [userRow (task_accountId devAdmin) ''u-1''
                                          (task_permissionSetName devAdmin)])] =
                                   [(userRow ''111111111111'' ''alice'' ''AdminAccess'')
                                      \<lparr>accountName := ''Prod''\<rparr>,
                                    (userRow ''222222222222'' ''u-1'' ''AdminAccess'')
                                      \<lparr>accountName := ''Dev''\<rparr>]))))))"
proof -
  have tasks: "allTasks [(''111111111111'', ''Prod''), (''222222222222'', ''Dev'')]
     [(''arn:ps'', ''AdminAccess'')] = [prodAdmin, devAdmin]"
    by (simp add: allTasks_def prodAdmin_def devAdmin_def)
  have apart: "(case runTask (Suc 0) steadySso flakyStore ''arn:sso'' ''d-1'' prodAdmin world0 of
      Some (Inr first, w1) \<Rightarrow>
        (case runTask (Suc 0) steadySso flakyStore ''arn:sso'' ''d-1'' devAdmin w1 of
           Some (Inr second, w2) \<Rightarrow>
             aggregate [first, second] =
               [(userRow ''111111111111'' ''alice'' ''AdminAccess'')\<lparr>accountName := ''Prod''\<rparr>,
                (userRow ''222222222222'' ''alice'' ''AdminAccess'')\<lparr>accountName := ''Dev''\<rparr>]
         | _ \<Rightarrow> False)
    | _ \<Rightarrow> False)"
    by (simp add: runTask_def getAssignments_def getAssignments_pages.simps
        processAssignments.simps getUserName_def getUserName_fetch_def getUserName_settle_def
        retryWithBackoff_def retryLoop_step send_def world0_def steadySso_def flakyStore_def
        truthy_def orElse_def MAX_RETRIES_def Let_def userRow_def withAccountName_def
        prodAdmin_def devAdmin_def aggregate_def groupByAccount_def groupStep_def
        flattenAccounts_def)
  have together: "(case retryWithBackoff
           (send (listAccountAssignments steadySso ''arn:sso'' ''111111111111'' ''arn:ps'' None)
              (ListAccountAssignmentsCommand ''arn:sso'' ''111111111111'' ''arn:ps'' None))
           ''ListAccountAssignments(111111111111)'' MAX_RETRIES world0 of
      (pageA, v1) \<Rightarrow>
        (case retryWithBackoff
                (send (listAccountAssignments steadySso ''arn:sso'' ''222222222222'' ''arn:ps'' None)
                   (ListAccountAssignmentsCommand ''arn:sso'' ''222222222222'' ''arn:ps'' None))
                ''ListAccountAssignments(222222222222)'' MAX_RETRIES v1 of
           (pageB, v2) \<Rightarrow>
             pageA = Inr \<lparr>AccountAssignments =
                            Some [\<lparr>PrincipalId = Some ''u-1'', PrincipalType = Some ''USER''\<rparr>],
                          AssignmentsNextToken = None\<rparr> \<and>
             pageB = pageA \<and> userCache v2 ''u-1'' = None \<and>
             (case getUserName_fetch flakyStore ''d-1'' ''u-1'' v2 of
                (outcomeA, v3) \<Rightarrow>
                  (case getUserName_fetch flakyStore ''d-1'' ''u-1'' v3 of
                     (outcomeB, v4) \<Rightarrow>
                       (case getUserName_settle ''u-1'' outcomeA v4 of
                          (nameA, v5) \<Rightarrow>
                            (case getUserName_settle ''u-1'' outcomeB v5 of
                               (nameB, v6) \<Rightarrow>
                                 nameA = Inr ''alice'' \<and> nameB = Inr ''u-1'' \<and>
                                 aggregate
                                   [(prodAdmin,
                                     withAccountName prodAdmin
                                       [userRow (task_accountId prodAdmin) ''alice''
                                          (task_permissionSetName prodAdmin)]),
                                    (devAdmin,
                                     withAccountName devAdmin
                                       [userRow (task_accountId devAdmin) ''u-1''
                                          (task_permissionSetName devAdmin)])] =
                                   [(userRow ''111111111111'' ''alice'' ''AdminAccess'')
                                      \<lparr>accountName := ''Prod''\<rparr>,
                                    (userRow ''222222222222'' ''u-1'' ''AdminAccess'')
                                      \<lparr>accountName := ''Dev''\<rparr>]))))))"
    by (simp add: getUserName_fetch_def getUserName_settle_def
        retryWithBackoff_def retryLoop_step send_def world0_def steadySso_def flakyStore_def
        internalError_def isRateLimitError_def consoleError_def
        orElse_def MAX_RETRIES_def Let_def userRow_def withAccountName_def
        prodAdmin_def devAdmin_def aggregate_def groupByAccount_def groupStep_def
        flattenAccounts_def)
  from tasks apart together show ?thesis by (intro conjI)
qed

section \<open>Fuel\<close>

text \<open>
  The fuel bounds the number of pages a listing may take and nothing else: a call that
  returns with some fuel returns the same result and world with any larger amount.
\<close>

lemma getGroupMembers_pages_mono:
  "getGroupMembers_pages fuel idc sid gid members tok w = Some r \<Longrightarrow>
   getGroupMembers_pages (fuel + k) idc sid gid members tok w = Some r"
proof (induction fuel arbitrary: members tok w)
  case 0
  then show ?case by simp
next
  case (Suc fuel)
  then show ?case
    by (auto simp: Let_def split: prod.splits sum.splits if_splits)
qed

lemma getGroupMembers_mono:
  "getGroupMembers fuel idc sid gid w = Some r \<Longrightarrow>
   getGroupMembers (fuel + k) idc sid gid w = Some r"
  by (auto simp: getGroupMembers_def getGroupMembers_pages_mono split: option.splits)

lemma processAssignments_mono:
  "processAssignments limit idc sid acct ps refs rows w = Some r \<Longrightarrow>
   processAssignments (limit + k) idc sid acct ps refs rows w = Some r"
proof (induction refs arbitrary: rows w)
  case Nil
  then show ?case by simp
next
  case (Cons a rest)
  show ?case
  proof (cases "validRef a")
    case False
    with Cons show ?thesis by (simp add: processAssignments_skip)
  next
    case True
    show ?thesis
    proof (cases "PrincipalType a = Some ''USER''")
      case user: True
      obtain n w1 where g: "getUserName idc sid (the (PrincipalId a)) w = (Inr n, w1)"
        using getUserName_result [of idc sid "the (PrincipalId a)" w]
        by (cases "getUserName idc sid (the (PrincipalId a)) w") auto
      from Cons show ?thesis
        by (simp add: processAssignments_user [OF True user g])
    next
      case notuser: False
      show ?thesis
      proof (cases "PrincipalType a = Some ''GROUP''")
        case False
        with Cons True notuser show ?thesis by (simp add: processAssignments_other)
      next
        case grp: True
        let ?gid = "the (PrincipalId a)"
        obtain gn w1 where g: "getGroupName idc sid ?gid w = (Inr gn, w1)"
          using getGroupName_result [of idc sid ?gid w]
          by (cases "getGroupName idc sid ?gid w") auto
        show ?thesis
        proof (cases "getGroupMembers limit idc sid ?gid w1")
          case None
          from processAssignments_group_None [OF True grp g None] Cons.prems
          show ?thesis by simp
        next
          case (Some m)
          obtain mr w2 where m: "m = (mr, w2)" by (cases m)
          from getGroupMembers_result [OF Some [unfolded m]] obtain members where
            mem: "mr = Inr members" by blast
          obtain rows2 w3 where e: "expandMembers idc sid acct ps gn members rows w2 = (Inr rows2, w3)"
            using expandMembers_result [of idc sid acct ps gn members rows w2]
            by (cases "expandMembers idc sid acct ps gn members rows w2") auto
          from getGroupMembers_mono [OF Some [unfolded m mem]]
          have m2: "getGroupMembers (limit + k) idc sid ?gid w1 = Some (Inr members, w2)" .
          from Cons.prems processAssignments_group [OF True grp g Some [unfolded m mem] e]
          have "processAssignments limit idc sid acct ps rest rows2 w3 = Some r" by simp
          from Cons.IH [OF this] processAssignments_group [OF True grp g m2 e]
          show ?thesis by simp
        qed
      qed
    qed
  qed
qed

lemma getAssignments_pages_mono:
  "getAssignments_pages fuel limit sso idc arn sid acct psArn ps rows tok w = Some r \<Longrightarrow>
   getAssignments_pages (fuel + k) (limit + j) sso idc arn sid acct psArn ps rows tok w = Some r"
proof (induction fuel arbitrary: rows tok w)
  case 0
  then show ?case by simp
next
  case (Suc fuel)
  then show ?case
    by (auto simp: getAssignments_pages.simps(2) processAssignments_mono
        split: prod.splits sum.splits option.splits if_splits)
qed

lemma getAssignments_more_fuel:
  "getAssignments fuel sso idc arn sid acct psArn ps w = Some r \<Longrightarrow>
   getAssignments (fuel + k) sso idc arn sid acct psArn ps w = Some r"
  by (simp add: getAssignments_def getAssignments_pages_mono)

section \<open>End-to-end scenarios\<close>

lemmas run_defs =
  runTask_def getAssignments_def getAssignments_pages.simps processAssignments.simps
  getUserName_def getUserName_fetch_def getUserName_settle_def getGroupName_def
  getGroupMembers_def retryWithBackoff_def retryLoop_step send_def world0_def
  truthy_def orElse_def memberUserIds_def MAX_RETRIES_def Let_def userRow_def groupRow_def
  withAccountName_def prodAdmin_def

lemmas csv_defs =
  aggregate_def groupByAccount_def groupStep_def flattenAccounts_def csvContent_def csvLines_def
  csvLine_def csvFields_def escapeCsv_def csvHeader_def comma_def dquote_def newline_def

text \<open>
  The four end-to-end scenarios of the specification, run on the example services: one
  direct user assignment; one group with two members; a group that is gone; and a
  throttled first request of the assignment listing followed by an answer, which gives
  the result of an immediate answer after one warning and one sleep.
\<close>

theorem scenario_direct_user:
  "(case runTask (Suc (Suc 0)) oneUserSso exampleStore ''arn:sso'' ''d-1'' prodAdmin world0 of
      Some (Inr result, w') \<Rightarrow>
        csvContent (aggregate [result]) =
          ''Account Number,Account Name,Username,Permission Set,Group'' @ [CHR 0x0A] @
          ''111111111111,Prod,alice,AdminAccess,''
    | _ \<Rightarrow> False)"
  by (simp add: run_defs csv_defs oneUserSso_def exampleStore_def)

theorem scenario_group_members:
  "(case runTask (Suc (Suc 0)) oneGroupSso exampleStore ''arn:sso'' ''d-1'' prodAdmin world0 of
      Some (Inr result, w') \<Rightarrow>
        csvContent (aggregate [result]) =
          ''Account Number,Account Name,Username,Permission Set,Group'' @ [CHR 0x0A] @
          ''111111111111,Prod,bob,AdminAccess,Devs'' @ [CHR 0x0A] @
          ''111111111111,Prod,carol,AdminAccess,Devs''
    | _ \<Rightarrow> False)"
  by (simp add: run_defs csv_defs oneGroupSso_def exampleStore_def)

theorem scenario_deleted_group:
  "(case runTask (Suc (Suc 0)) oneGroupSso goneStore ''arn:sso'' ''d-1'' prodAdmin world0 of
      Some (Inr result, w') \<Rightarrow>
        groupCache w' ''g-1'' = Some ''[Deleted Group: g-1]'' \<and>
        groupMembersCache w' ''g-1'' = Some [] \<and>
        csvContent (aggregate [result]) =
          ''Account Number,Account Name,Username,Permission Set,Group''
    | _ \<Rightarrow> False)"
  by (simp add: run_defs csv_defs oneGroupSso_def goneStore_def notFound_def
      isRateLimitError_def deletedGroup_def)

theorem scenario_throttle_then_success:
  "map_option fst (runTask (Suc (Suc 0)) throttleOnceSso exampleStore ''arn:sso'' ''d-1''
                     prodAdmin world0) =
   map_option fst (runTask (Suc (Suc 0)) oneUserSso exampleStore ''arn:sso'' ''d-1''
                     prodAdmin world0) \<and>
   (case runTask (Suc (Suc 0)) throttleOnceSso exampleStore ''arn:sso'' ''d-1'' prodAdmin world0 of
      Some (Inr result, w') \<Rightarrow>
        length (filter (\<lambda>ev. case ev of Warning m \<Rightarrow> True | _ \<Rightarrow> False) (trace w')) = 1 \<and>
        sleeps (trace w') = [1250]
    | _ \<Rightarrow> False)"
  by (simp add: run_defs oneUserSso_def throttleOnceSso_def exampleStore_def throttled_def
      isRateLimitError_def afterBackoff_def sleep_def logWarning_def INITIAL_RETRY_DELAY_def)

end
